theory Spec2Isabelle
  imports Complex_Main "HOL-Library.Log_Nat"
begin

section \<open>JavaScript numbers: IEEE 754 binary64\<close>

text \<open>
  A JavaScript number is a binary64 value. It is modelled in sign-magnitude form: the
  sign bit (\<open>True\<close> for negative) and, for a finite value, the magnitude as a rational.
  Every arithmetic operation computes the exact rational result and rounds it to the
  nearest representable magnitude, ties to even, with gradual underflow and overflow to
  infinity. Both zeros exist: \<open>Finite False 0\<close> and \<open>Finite True 0\<close>.
\<close>

datatype number = NaN | Infinite bool | Finite bool rat

text \<open>\<open>ilog b a\<close> is the integer \<open>e\<close> with \<open>b ^ e \<le> a < b ^ (e + 1)\<close>, for \<open>0 < a\<close>.\<close>

definition ilog :: "nat \<Rightarrow> rat \<Rightarrow> int" where
  "ilog b a = (if 1 \<le> a then int (floorlog b (nat \<lfloor>a\<rfloor>)) - 1
               else - int (floorlog b (nat \<lceil>1 / a\<rceil> - 1)))"

text \<open>Rounding to the nearest integer, a tie going to the even one.\<close>

definition round_even :: "rat \<Rightarrow> int" where
  "round_even x = (let f = \<lfloor>x\<rfloor>; r = x - of_int f in
     if r < 1 / 2 then f else if 1 / 2 < r then f + 1
     else if even f then f else f + 1)"

text \<open>
  The spacing of binary64 values around the magnitude \<open>a\<close>: 52 fraction bits below the
  leading bit, and the fixed spacing \<open>2 ^ - 1074\<close> of the subnormal range.
\<close>

definition quantum :: "rat \<Rightarrow> rat" where
  "quantum a = 2 powi (max (ilog 2 a) (- 1022) - 52)"

text \<open>Rounding a magnitude; \<open>None\<close> is overflow.\<close>

definition round_mag :: "rat \<Rightarrow> rat option" where
  "round_mag a = (if a = 0 then Some 0 else
     let q = quantum a; m = of_int (round_even (a / q)) * q
     in if 2 ^ 1024 \<le> m then None else Some m)"

definition fl :: "bool \<Rightarrow> rat \<Rightarrow> number" where
  "fl s a = (case round_mag a of None \<Rightarrow> Infinite s | Some m \<Rightarrow> Finite s m)"

text \<open>A non-negative decimal literal of the source text denotes the nearest binary64 value.\<close>

definition lit :: "rat \<Rightarrow> number" where
  "lit q = fl False q"

definition sval :: "bool \<Rightarrow> rat \<Rightarrow> rat" where
  "sval s a = (if s then - a else a)"

text \<open>The operators \<open>*\<close>, \<open>/\<close> and \<open>-\<close> of the language.\<close>

fun mul :: "number \<Rightarrow> number \<Rightarrow> number" where
  "mul NaN y = NaN"
| "mul x NaN = NaN"
| "mul (Infinite s) (Infinite t) = Infinite (s \<noteq> t)"
| "mul (Infinite s) (Finite t b) = (if b = 0 then NaN else Infinite (s \<noteq> t))"
| "mul (Finite s a) (Infinite t) = (if a = 0 then NaN else Infinite (s \<noteq> t))"
| "mul (Finite s a) (Finite t b) = fl (s \<noteq> t) (a * b)"

fun divide_num :: "number \<Rightarrow> number \<Rightarrow> number" where
  "divide_num NaN y = NaN"
| "divide_num x NaN = NaN"
| "divide_num (Infinite s) (Infinite t) = NaN"
| "divide_num (Infinite s) (Finite t b) = Infinite (s \<noteq> t)"
| "divide_num (Finite s a) (Infinite t) = Finite (s \<noteq> t) 0"
| "divide_num (Finite s a) (Finite t b) =
     (if b = 0 then (if a = 0 then NaN else Infinite (s \<noteq> t))
      else fl (s \<noteq> t) (a / b))"

fun sub :: "number \<Rightarrow> number \<Rightarrow> number" where
  "sub NaN y = NaN"
| "sub x NaN = NaN"
| "sub (Infinite s) (Infinite t) = (if s = t then NaN else Infinite s)"
| "sub (Infinite s) (Finite t b) = Infinite s"
| "sub (Finite s a) (Infinite t) = Infinite (\<not> t)"
| "sub (Finite s a) (Finite t b) =
     (let v = sval s a - sval t b
      in if v = 0 then Finite (s \<and> \<not> t) 0 else fl (v < 0) \<bar>v\<bar>)"

text \<open>The relational operators: every comparison with \<open>NaN\<close> is false.\<close>

fun less_num :: "number \<Rightarrow> number \<Rightarrow> bool" where
  "less_num NaN y = False"
| "less_num x NaN = False"
| "less_num (Infinite s) (Infinite t) = (s \<and> \<not> t)"
| "less_num (Infinite s) (Finite t b) = s"
| "less_num (Finite s a) (Infinite t) = (\<not> t)"
| "less_num (Finite s a) (Finite t b) = (sval s a < sval t b)"

definition greater_num :: "number \<Rightarrow> number \<Rightarrow> bool" where
  "greater_num x y = less_num y x"

definition lesseq_num :: "number \<Rightarrow> number \<Rightarrow> bool" where
  "lesseq_num x y = (x \<noteq> NaN \<and> y \<noteq> NaN \<and> \<not> less_num y x)"

definition isNaN :: "number \<Rightarrow> bool" where
  "isNaN x = (x = NaN)"

text \<open>
  The values of the type: the magnitude of a finite value is not negative and is
  representable, that is, rounding leaves it as it is.
\<close>

definition is_double :: "number \<Rightarrow> bool" where
  "is_double x = (case x of Finite s a \<Rightarrow> 0 \<le> a \<and> round_mag a = Some a | _ \<Rightarrow> True)"

section \<open>Strings and the conversions between strings and numbers\<close>

text \<open>
  A string is a list of code units; the code units modelled are those below 256, which
  cover every character the program reads or writes (the superscript three of the
  cubic-metre unit is code unit 179).
\<close>

definition is_digit :: "char \<Rightarrow> bool" where
  "is_digit c = (c \<in> set ''0123456789'')"

definition digit_val :: "char \<Rightarrow> nat" where
  "digit_val c = of_char c - 48"

definition digits_val :: "string \<Rightarrow> nat" where
  "digits_val ds = foldl (\<lambda>n c. 10 * n + digit_val c) 0 ds"

text \<open>White space and line terminators skipped by \<open>parseFloat\<close>.\<close>

definition is_ws :: "char \<Rightarrow> bool" where
  "is_ws c = (of_char c \<in> {9, 10, 11, 12, 13, 32, 160 :: nat})"

text \<open>The value of an optional exponent part: \<open>e\<close> or \<open>E\<close>, an optional sign, digits.\<close>

definition exponent_part :: "string \<Rightarrow> int" where
  "exponent_part r = (case r of [] \<Rightarrow> 0 | c # r1 \<Rightarrow>
     if c = CHR ''e'' \<or> c = CHR ''E'' then
       (case r1 of [] \<Rightarrow> 0 | d # r2 \<Rightarrow>
          if d = CHR ''-'' then - int (digits_val (takeWhile is_digit r2))
          else if d = CHR ''+'' then int (digits_val (takeWhile is_digit r2))
          else int (digits_val (takeWhile is_digit r1)))
     else 0)"

text \<open>
  The built-in \<open>parseFloat\<close>: skip leading white space, take the longest prefix that is a
  decimal literal (optional sign, then \<open>Infinity\<close>, or digits with an optional fraction
  and an optional exponent), and round its value; \<open>NaN\<close> when no prefix is a literal.
\<close>

definition parseFloat :: "string \<Rightarrow> number" where
  "parseFloat str =
    (let t = dropWhile is_ws str;
         neg = (case t of [] \<Rightarrow> False | c # _ \<Rightarrow> c = CHR ''-'');
         u = (case t of [] \<Rightarrow> [] | c # r \<Rightarrow> if c = CHR ''-'' \<or> c = CHR ''+'' then r else t)
     in if take 8 u = ''Infinity'' then Infinite neg
        else
          let ip = takeWhile is_digit u;
              r1 = dropWhile is_digit u;
              fp = (case r1 of [] \<Rightarrow> [] | c # r \<Rightarrow>
                      if c = CHR ''.'' then takeWhile is_digit r else []);
              r2 = (case r1 of [] \<Rightarrow> [] | c # r \<Rightarrow>
                      if c = CHR ''.'' then dropWhile is_digit r else r1)
          in if ip = [] \<and> fp = [] then NaN
             else fl neg (of_nat (digits_val (ip @ fp))
                            * 10 powi (exponent_part r2 - int (length fp))))"

text \<open>The decimal digits of a natural number.\<close>

fun dec_string :: "nat \<Rightarrow> string" where
  "dec_string n = (if n < 10 then [''0123456789'' ! n]
                   else dec_string (n div 10) @ [''0123456789'' ! (n mod 10)])"

declare dec_string.simps [simp del]

text \<open>
  \<open>Number::toString\<close>: the shortest digit string \<open>s\<close> (with \<open>k\<close> digits) and the exponent
  \<open>n\<close> such that \<open>s * 10 ^ (n - k)\<close> rounds to the number; among several \<open>s\<close> the one
  nearest to the number, then the even one.
\<close>

definition digits_try :: "rat \<Rightarrow> nat \<Rightarrow> (nat \<times> int \<times> int) option" where
  "digits_try a k =
    (let n0 = ilog 10 a + 1;
         sc = 10 powi (n0 - int k);
         lo = \<lfloor>a / sc\<rfloor>;
         hi = (if lo + 1 = 10 ^ k then 10 ^ (k - 1) else lo + 1);
         nh = (if lo + 1 = 10 ^ k then n0 + 1 else n0);
         vlo = (10 ^ (k - 1) \<le> lo \<and> round_mag (of_int lo * sc) = Some a);
         vhi = (round_mag (of_int (lo + 1) * sc) = Some a);
         dlo = a - of_int lo * sc;
         dhi = of_int (lo + 1) * sc - a
     in if vlo \<and> (\<not> vhi \<or> dlo < dhi \<or> (dlo = dhi \<and> even lo)) then Some (k, lo, n0)
        else if vhi then Some (k, hi, nh)
        else None)"

fun digits_search :: "rat \<Rightarrow> nat list \<Rightarrow> nat \<times> int \<times> int" where
  "digits_search a [] = (17, \<lfloor>a / 10 powi (ilog 10 a + 1 - 17)\<rfloor>, ilog 10 a + 1)"
| "digits_search a (k # ks) =
     (case digits_try a k of Some r \<Rightarrow> r | None \<Rightarrow> digits_search a ks)"

definition toString_mag :: "rat \<Rightarrow> string" where
  "toString_mag a =
    (case digits_search a [1 ..< 18] of (k, s, n) \<Rightarrow>
       let ds = dec_string (nat s) in
       if int k \<le> n \<and> n \<le> 21 then ds @ replicate (nat (n - int k)) (CHR ''0'')
       else if 0 < n \<and> n \<le> 21 then take (nat n) ds @ ''.'' @ drop (nat n) ds
       else if - 6 < n \<and> n \<le> 0 then ''0.'' @ replicate (nat (- n)) (CHR ''0'') @ ds
       else
         let e = n - 1;
             es = (if e < 0 then ''-'' else ''+'') @ dec_string (nat \<bar>e\<bar>)
         in if k = 1 then ds @ ''e'' @ es
            else take 1 ds @ ''.'' @ drop 1 ds @ ''e'' @ es)"

definition toString :: "number \<Rightarrow> string" where
  "toString x = (case x of
       NaN \<Rightarrow> ''NaN''
     | Infinite s \<Rightarrow> (if s then ''-Infinity'' else ''Infinity'')
     | Finite s a \<Rightarrow>
         if a = 0 then ''0''
         else (if s then ''-'' else []) @ toString_mag a)"

text \<open>
  \<open>Number.prototype.toFixed\<close>: the integer \<open>n\<close> nearest to \<open>x * 10 ^ f\<close>, the larger one
  on a tie, printed with the decimal point before its last \<open>f\<close> digits; a value that is
  not finite or whose magnitude reaches \<open>10 ^ 21\<close> is printed by \<open>toString\<close> instead.
\<close>

definition toFixed :: "number \<Rightarrow> nat \<Rightarrow> string" where
  "toFixed x f = (case x of
       NaN \<Rightarrow> toString x
     | Infinite s \<Rightarrow> toString x
     | Finite s a \<Rightarrow>
         (if sval s a < 0 then ''-'' else []) @
         (if 10 ^ 21 \<le> a then toString (Finite False a)
          else
            let m = dec_string (nat \<lfloor>a * 10 ^ f + 1 / 2\<rfloor>) in
            if f = 0 then m
            else
              let m' = replicate (f + 1 - length m) (CHR ''0'') @ m;
                  k = length m'
              in take (k - f) m' @ ''.'' @ drop (k - f) m'))"

section \<open>The calculator of \<open>src/App.tsx\<close>\<close>

subsection \<open>Data\<close>

record CropType =
  id' :: string
  name :: string
  scientificName :: string
  biomassFactor :: number
  moistureContent :: number

record FormData =
  cropType :: string
  totalMass :: string
  lossFraction :: string
  processingFactor :: string
  moistureContent :: string
  recoveryEfficiency :: string
  biomassFactor :: string

text \<open>
  \<open>ValidationErrors\<close> is an object with optional string properties: the list of its
  own properties in insertion order, each with its message.
\<close>

type_synonym ValidationErrors = "(string \<times> string) list"

definition CROP_TYPES :: "CropType list" where
  "CROP_TYPES =
    [\<lparr>id' = ''tunisian-olive'', name = ''Tunisian Olive'',
      scientificName = ''Olea europaea L. cv. Chemlali'',
      biomassFactor = lit (175 / 1000), moistureContent = lit (725 / 10)\<rparr>,
     \<lparr>id' = ''koroneiki-olive'', name = ''Koroneiki Olive'',
      scientificName = ''Olea europaea L. cv. Koroneiki'',
      biomassFactor = lit (20 / 100), moistureContent = lit 70\<rparr>,
     \<lparr>id' = ''leccino-olive'', name = ''Leccino Olive'',
      scientificName = ''Olea europaea L. cv. Leccino'',
      biomassFactor = lit (16 / 100), moistureContent = lit (725 / 10)\<rparr>,
     \<lparr>id' = ''apple-tree'', name = ''Apple Tree'',
      scientificName = ''Malus domestica'',
      biomassFactor = lit (12 / 100), moistureContent = lit 80\<rparr>]"

text \<open>The initial state of the form (\<open>useState\<close>).\<close>

definition initialFormData :: FormData where
  "initialFormData =
    \<lparr>cropType = ''tunisian-olive'', totalMass = [], lossFraction = ''20'',
     processingFactor = ''1.0'', moistureContent = ''72.5'',
     recoveryEfficiency = ''50'', biomassFactor = ''0.175''\<rparr>"

definition WATER_DENSITY :: number where
  "WATER_DENSITY = lit 1"

subsection \<open>Crop lookup and crop selection\<close>

text \<open>\<open>CROP_TYPES.find(crop => crop.id === id)\<close>: \<open>None\<close> is \<open>undefined\<close>.\<close>

definition lookup :: "string \<Rightarrow> CropType option" where
  "lookup cid = find (\<lambda>crop. id' crop = cid) CROP_TYPES"

text \<open>The crop shown to the user: the one found, or else the first of the catalog.\<close>

definition selectedCrop :: "FormData \<Rightarrow> CropType" where
  "selectedCrop formData =
    (case lookup (cropType formData) of Some crop \<Rightarrow> crop | None \<Rightarrow> CROP_TYPES ! 0)"

definition handleCropTypeChange :: "string \<Rightarrow> FormData \<Rightarrow> FormData" where
  "handleCropTypeChange cropId prev = prev\<lparr>cropType := cropId\<rparr>"

text \<open>The body of the effect that fills in the crop's values.\<close>

definition cropTypeEffect :: "FormData \<Rightarrow> FormData" where
  "cropTypeEffect formData =
    (case lookup (cropType formData) of
       Some crop \<Rightarrow>
         formData\<lparr>biomassFactor := toString (CropType.biomassFactor crop),
                  moistureContent := toString (CropType.moistureContent crop)\<rparr>
     | None \<Rightarrow> formData)"

text \<open>
  Selecting a crop: \<open>handleCropTypeChange\<close> stores the identifier, and the effect, whose
  dependency list is \<open>[formData.cropType]\<close>, runs after the update exactly when the
  stored identifier has changed. The second effect of the component (recalculation)
  writes no field of the form and is not part of this function.
\<close>

definition selectCrop :: "string \<Rightarrow> FormData \<Rightarrow> FormData" where
  "selectCrop cropId formData =
    (let next = handleCropTypeChange cropId formData
     in if cropType next \<noteq> cropType formData then cropTypeEffect next else next)"

subsection \<open>Validation\<close>

text \<open>
  \<open>validateInputs\<close> returns the errors it stores with \<open>setErrors\<close> and its boolean
  result. \<open>!formData.totalMass\<close> is true exactly for the empty string.
\<close>

definition validateInputs :: "FormData \<Rightarrow> ValidationErrors \<times> bool" where
  "validateInputs formData =
    (let e0 = [];
         totalMass' = parseFloat (totalMass formData);
         e1 = (if totalMass formData = [] \<or> isNaN totalMass' \<or> lesseq_num totalMass' (lit 0)
               then e0 @ [(''totalMass'', ''Please enter a valid positive mass value'')]
               else e0);
         lossFraction' = parseFloat (lossFraction formData);
         e2 = (if isNaN lossFraction' \<or> less_num lossFraction' (lit 0)
                  \<or> greater_num lossFraction' (lit 100)
               then e1 @ [(''lossFraction'', ''Loss fraction must be between 0 and 100%'')]
               else e1);
         processingFactor' = parseFloat (processingFactor formData);
         e3 = (if isNaN processingFactor' \<or> lesseq_num processingFactor' (lit 0)
               then e2 @ [(''processingFactor'', ''Processing factor must be a positive number'')]
               else e2);
         moistureContent' = parseFloat (moistureContent formData);
         e4 = (if isNaN moistureContent' \<or> less_num moistureContent' (lit 0)
                  \<or> greater_num moistureContent' (lit 100)
               then e3 @ [(''moistureContent'', ''Moisture content must be between 0 and 100%'')]
               else e3);
         recoveryEfficiency' = parseFloat (recoveryEfficiency formData);
         e5 = (if isNaN recoveryEfficiency' \<or> less_num recoveryEfficiency' (lit 0)
                  \<or> greater_num recoveryEfficiency' (lit 100)
               then e4 @ [(''recoveryEfficiency'', ''Recovery efficiency must be between 0 and 100%'')]
               else e4);
         biomassFactor' = parseFloat (biomassFactor formData);
         e6 = (if isNaN biomassFactor' \<or> lesseq_num biomassFactor' (lit 0)
               then e5 @ [(''biomassFactor'', ''Biomass factor must be a positive number'')]
               else e5)
     in (e6, length e6 = 0))"

subsection \<open>Calculation\<close>

text \<open>
  \<open>calculateWaterVolume\<close> returns early when validation fails (\<open>None\<close>: no result is
  set); otherwise the value it passes to \<open>setResult\<close>. The delay before the computation
  changes no value and is not modelled.
\<close>

definition calculateWaterVolume :: "FormData \<Rightarrow> number option" where
  "calculateWaterVolume formData =
    (if \<not> snd (validateInputs formData) then None
     else
       let M_h = parseFloat (totalMass formData);
           L_c = divide_num (parseFloat (lossFraction formData)) (lit 100);
           E_p = parseFloat (processingFactor formData);
           MC = divide_num (parseFloat (moistureContent formData)) (lit 100);
           eta = divide_num (parseFloat (recoveryEfficiency formData)) (lit 100);
           F_b = parseFloat (biomassFactor formData);
           waterVolume =
             divide_num (mul (mul (mul (mul (mul M_h F_b) (sub (lit 1) L_c)) E_p) MC) eta)
               WATER_DENSITY
       in Some waterVolume)"

subsection \<open>Formatting\<close>

definition formatResult :: "number \<Rightarrow> string" where
  "formatResult volume =
    (if less_num volume (lit (1 / 1000)) then
       toFixed (mul volume (lit 1000)) 2 @ '' mL''
     else if less_num volume (lit 1) then
       toFixed (mul volume (lit 1000)) 0 @ '' mL''
     else if less_num volume (lit 1000) then
       toFixed volume 2 @ '' L''
     else
       toFixed (divide_num volume (lit 1000)) 2 @ '' m'' @ [CHR 0xB3])"

section \<open>The specification's notions\<close>


text \<open>The documented ranges: a percentage in \<open>[0, 100]\<close>, a strictly positive number, and
  a finite strictly positive number.\<close>

definition in_percent_range :: "number \<Rightarrow> bool" where
  "in_percent_range x =
    (case x of Finite s a \<Rightarrow> 0 \<le> sval s a \<and> sval s a \<le> 100 | _ \<Rightarrow> False)"

definition positive_num :: "number \<Rightarrow> bool" where
  "positive_num x =
    (case x of Finite s a \<Rightarrow> 0 < sval s a | Infinite s \<Rightarrow> \<not> s | NaN \<Rightarrow> False)"

definition finite_positive :: "number \<Rightarrow> bool" where
  "finite_positive x = (case x of Finite s a \<Rightarrow> 0 < sval s a | _ \<Rightarrow> False)"

text \<open>The six validated fields in the order of the checks, the text a form holds for a
  field, and the rule of each field taken alone.\<close>

definition fieldNames :: "string list" where
  "fieldNames = [''totalMass'', ''lossFraction'', ''processingFactor'', ''moistureContent'',
                 ''recoveryEfficiency'', ''biomassFactor'']"

definition fieldValue :: "FormData \<Rightarrow> string \<Rightarrow> string" where
  "fieldValue formData field =
    (if field = ''totalMass'' then totalMass formData
     else if field = ''lossFraction'' then lossFraction formData
     else if field = ''processingFactor'' then processingFactor formData
     else if field = ''moistureContent'' then moistureContent formData
     else if field = ''recoveryEfficiency'' then recoveryEfficiency formData
     else biomassFactor formData)"

definition fails_rule :: "string \<Rightarrow> string \<Rightarrow> bool" where
  "fails_rule field v =
    (if field = ''totalMass'' then
       v = [] \<or> parseFloat v = NaN \<or> \<not> positive_num (parseFloat v)
     else if field = ''processingFactor'' \<or> field = ''biomassFactor'' then
       parseFloat v = NaN \<or> \<not> positive_num (parseFloat v)
     else
       parseFloat v = NaN \<or> \<not> in_percent_range (parseFloat v))"

text \<open>
  A string in fixed notation with exactly \<open>f\<close> decimal places: an optional minus sign, at
  least one digit, and, when \<open>f\<close> is not zero, a point followed by \<open>f\<close> digits.
\<close>

definition fixed_decimals :: "nat \<Rightarrow> string \<Rightarrow> bool" where
  "fixed_decimals f str =
    (let u = (case str of [] \<Rightarrow> [] | c # r \<Rightarrow> if c = CHR ''-'' then r else str);
         ip = takeWhile is_digit u;
         r1 = dropWhile is_digit u
     in ip \<noteq> [] \<and>
        (if f = 0 then r1 = []
         else (case r1 of [] \<Rightarrow> False
               | c # fp \<Rightarrow> c = CHR ''.'' \<and> length fp = f \<and> list_all is_digit fp)))"

section \<open>Rounding: auxiliary facts\<close>

lemma floor_rat_numeral_div [simp]:
  "\<lfloor>numeral a / numeral b :: rat\<rfloor> = numeral a div numeral b"
  by (metis floor_divide_of_int_eq of_int_numeral)

lemma ceiling_rat_numeral_div [simp]:
  "\<lceil>numeral a / numeral b :: rat\<rceil> = - (- numeral a div numeral b)"
  by (metis ceiling_divide_eq_div of_int_numeral)

lemma digit_counts:
  "[Suc 0 ..< 18] = [1, 2, 3, 4, 5, 6, 7, 8, 9, 10, 11, 12, 13, 14, 15, 16, 17 :: nat]"
  by (simp add: upt_rec)

text \<open>The equations that evaluate the number model, and the string conversions, on
  concrete input.\<close>

lemmas num_eval = lit_def fl_def round_mag_def quantum_def round_even_def ilog_def Let_def
  compute_floorlog power_int_minus_divide sval_def

lemmas parse_eval = parseFloat_def is_ws_def is_digit_def digits_val_def digit_val_def
  exponent_part_def

lemmas str_eval = toString_def toString_mag_def digits_try_def dec_string.simps digit_counts

lemma round_even_of_int: "round_even (of_int n) = n"
  by (simp add: round_even_def)

lemma round_even_ge: "of_int n \<le> x \<Longrightarrow> n \<le> round_even x"
proof -
  assume "of_int n \<le> x"
  then have "n \<le> \<lfloor>x\<rfloor>" by (simp add: le_floor_iff)
  then show ?thesis unfolding round_even_def Let_def by auto
qed

lemma round_even_le: "x \<le> of_int n \<Longrightarrow> round_even x \<le> n"
proof -
  assume h: "x \<le> of_int n"
  then have fl: "\<lfloor>x\<rfloor> \<le> n" by (simp add: floor_le_iff)
  show ?thesis
  proof (cases "\<lfloor>x\<rfloor> = n")
    case True
    then have "x - of_int \<lfloor>x\<rfloor> \<le> 0" using h by simp
    then show ?thesis unfolding round_even_def Let_def using True by auto
  next
    case False
    then have "\<lfloor>x\<rfloor> + 1 \<le> n" using fl by simp
    then show ?thesis unfolding round_even_def Let_def using fl by auto
  qed
qed

lemma round_even_nonneg: "0 \<le> x \<Longrightarrow> 0 \<le> round_even x"
  using round_even_ge [of 0 x] by simp

lemma ilog_bounds:
  assumes "0 < a" "1 < b"
  shows "of_nat b powi (ilog b a) \<le> a \<and> a < of_nat b powi (ilog b a + 1)"
proof (cases "1 \<le> a")
  case True
  define n where "n = nat \<lfloor>a\<rfloor>"
  define k where "k = floorlog b n"
  have n1: "0 < n" using True by (simp add: n_def)
  have nb: "b ^ (k - 1) \<le> n \<and> n < b ^ k"
    unfolding k_def using floorlog_bounds [OF n1 assms(2)] by simp
  have k1: "1 \<le> k" unfolding k_def using n1 assms(2) by (simp add: floorlog_def)
  have nc: "(of_nat n :: rat) = of_int \<lfloor>a\<rfloor>"
    unfolding n_def using True by simp
  have na: "of_nat n \<le> a" "a < of_nat n + 1"
    unfolding nc by linarith+
  have il: "ilog b a = int k - 1" using True by (simp add: ilog_def n_def k_def)
  have lo: "(of_nat b :: rat) ^ (k - 1) \<le> of_nat n"
    using nb by (metis of_nat_le_iff of_nat_power)
  have hi: "(of_nat n :: rat) + 1 \<le> of_nat b ^ k"
  proof -
    have "n + 1 \<le> b ^ k" using nb by simp
    then have "(of_nat (n + 1) :: rat) \<le> of_nat b ^ k" by (metis of_nat_le_iff of_nat_power)
    then show ?thesis by simp
  qed
  have p1: "of_nat b powi (int k - 1) = (of_nat b :: rat) ^ (k - 1)"
    using k1 by (simp add: power_int_def nat_diff_distrib)
  have p2: "of_nat b powi (int k - 1 + 1) = (of_nat b :: rat) ^ k"
    by simp
  show ?thesis unfolding il p1 p2 using lo hi na by linarith
next
  case False
  define N where "N = nat \<lceil>1 / a\<rceil>"
  define k where "k = floorlog b (N - 1)"
  have inv: "1 < 1 / a" using False assms(1) by simp
  then have c2: "2 \<le> \<lceil>1 / a\<rceil>" by (simp add: le_ceiling_iff)
  then have N2: "2 \<le> N" unfolding N_def by linarith
  then have n1: "0 < N - 1" by simp
  have nb: "b ^ (k - 1) \<le> N - 1 \<and> N - 1 < b ^ k"
    unfolding k_def using floorlog_bounds [OF n1 assms(2)] by simp
  have k1: "1 \<le> k" unfolding k_def using n1 assms(2) by (simp add: floorlog_def)
  have il: "ilog b a = - int k" using False by (simp add: ilog_def N_def k_def)
  have Nc: "(of_nat N :: rat) = of_int \<lceil>1 / a\<rceil>"
    unfolding N_def using c2 by simp
  have na: "1 / a \<le> of_nat N" "of_nat N - 1 < 1 / a"
    unfolding Nc by linarith+
  have "N \<le> b ^ k" using nb N2 by linarith
  then have "(of_nat N :: rat) \<le> of_nat b ^ k" by (metis of_nat_le_iff of_nat_power)
  then have hi: "1 / a \<le> (of_nat b :: rat) ^ k" using na by linarith
  have "(of_nat b :: rat) ^ (k - 1) \<le> of_nat (N - 1)"
    using nb by (metis of_nat_le_iff of_nat_power)
  moreover have "(of_nat (N - 1) :: rat) = of_nat N - 1" using N2 by (simp add: of_nat_diff)
  ultimately have "(of_nat b :: rat) ^ (k - 1) \<le> of_nat N - 1" by simp
  then have lo: "(of_nat b :: rat) ^ (k - 1) < 1 / a" using na by linarith
  have bpos: "0 < (of_nat b :: rat)" using assms(2) by simp
  have p1: "of_nat b powi (- int k) = 1 / (of_nat b :: rat) ^ k"
    by (simp add: power_int_minus_divide)
  have p2: "of_nat b powi (- int k + 1) = 1 / (of_nat b :: rat) ^ (k - 1)"
  proof -
    have "- int k + 1 = - int (k - 1)" using k1 by simp
    then show ?thesis by (simp only: power_int_minus_divide power_int_of_nat)
  qed
  have g1: "1 / (of_nat b :: rat) ^ k \<le> a"
    using hi assms(1) bpos by (simp add: field_simps)
  have g2: "a < 1 / (of_nat b :: rat) ^ (k - 1)"
    using lo assms(1) bpos by (simp add: field_simps)
  show ?thesis unfolding il p1 p2 using g1 g2 by simp
qed

lemma ilog_unique:
  assumes "1 < b" "of_nat b powi e \<le> a" "a < of_nat b powi (e + 1)"
  shows "ilog b a = e"
proof -
  have bpos: "1 < (of_nat b :: rat)" using assms(1) by simp
  have apos: "0 < a" using assms(2) bpos
    by (meson less_le_trans zero_less_power_int less_trans zero_less_one)
  note B = ilog_bounds [OF apos assms(1)]
  have "of_nat b powi e < (of_nat b :: rat) powi (ilog b a + 1)" using B assms by linarith
  then have 1: "e < ilog b a + 1"
    using power_int_increasing [of "ilog b a + 1" e "of_nat b :: rat"] bpos
    by (cases "e < ilog b a + 1") auto
  have "of_nat b powi (ilog b a) < (of_nat b :: rat) powi (e + 1)" using B assms by linarith
  then have 2: "ilog b a < e + 1"
    using power_int_increasing [of "e + 1" "ilog b a" "of_nat b :: rat"] bpos
    by (cases "ilog b a < e + 1") auto
  show ?thesis using 1 2 by simp
qed

lemma lit_0: "lit 0 = Finite False 0"
  by (simp add: num_eval)

lemma lit_1: "lit 1 = Finite False 1"
  by (simp add: num_eval)

lemma lit_100: "lit 100 = Finite False 100"
  by (simp add: num_eval)

lemma lit_1000: "lit 1000 = Finite False 1000"
  by (simp add: num_eval)

lemma lit_milli: "lit (1 / 1000) = Finite False (1152921504606847 / 1152921504606846976)"
  by (simp add: num_eval)

lemma lit_1e21: "lit (10 ^ 21) = Finite False (10 ^ 21)"
  by (simp add: num_eval)

section \<open>The crop catalog\<close>

lemma CROP_TYPES_values:
  "CROP_TYPES =
    [\<lparr>id' = ''tunisian-olive'', name = ''Tunisian Olive'',
      scientificName = ''Olea europaea L. cv. Chemlali'',
      biomassFactor = Finite False (3152519739159347 / 18014398509481984),
      moistureContent = Finite False (145 / 2)\<rparr>,
     \<lparr>id' = ''koroneiki-olive'', name = ''Koroneiki Olive'',
      scientificName = ''Olea europaea L. cv. Koroneiki'',
      biomassFactor = Finite False (3602879701896397 / 18014398509481984),
      moistureContent = Finite False 70\<rparr>,
     \<lparr>id' = ''leccino-olive'', name = ''Leccino Olive'',
      scientificName = ''Olea europaea L. cv. Leccino'',
      biomassFactor = Finite False (5764607523034235 / 36028797018963968),
      moistureContent = Finite False (145 / 2)\<rparr>,
     \<lparr>id' = ''apple-tree'', name = ''Apple Tree'',
      scientificName = ''Malus domestica'',
      biomassFactor = Finite False (1080863910568919 / 9007199254740992),
      moistureContent = Finite False 80\<rparr>]"
  by (simp add: CROP_TYPES_def num_eval)

lemma number_strings:
  "toString (Finite False (3152519739159347 / 18014398509481984)) = ''0.175''"
  "toString (Finite False (3602879701896397 / 18014398509481984)) = ''0.2''"
  "toString (Finite False (5764607523034235 / 36028797018963968)) = ''0.16''"
  "toString (Finite False (1080863910568919 / 9007199254740992)) = ''0.12''"
  "toString (Finite False (145 / 2)) = ''72.5''"
  "toString (Finite False 70) = ''70''"
  "toString (Finite False 80) = ''80''"
  by (simp_all add: str_eval num_eval)

text \<open>
  Claim C5. The catalog holds exactly four profiles, in this order, with these
  identifiers and display names; the biomass factor and the moisture content of each are
  the binary64 values nearest to 0.175 and 72.5, 0.20 and 70, 0.16 and 72.5, 0.12 and 80
  (given here exactly, as fractions, and by the digits they print as), and looking up
  each identifier returns its profile.
\<close>

theorem catalog_entries:
  "map (\<lambda>c. (id' c, name c, CropType.biomassFactor c, CropType.moistureContent c)) CROP_TYPES =
     [(''tunisian-olive'', ''Tunisian Olive'',
         Finite False (3152519739159347 / 18014398509481984), Finite False (145 / 2)),
      (''koroneiki-olive'', ''Koroneiki Olive'',
         Finite False (3602879701896397 / 18014398509481984), Finite False 70),
      (''leccino-olive'', ''Leccino Olive'',
         Finite False (5764607523034235 / 36028797018963968), Finite False (145 / 2)),
      (''apple-tree'', ''Apple Tree'',
         Finite False (1080863910568919 / 9007199254740992), Finite False 80)]
   \<and> map (\<lambda>c. (toString (CropType.biomassFactor c), toString (CropType.moistureContent c)))
         CROP_TYPES =
       [(''0.175'', ''72.5''), (''0.2'', ''70''), (''0.16'', ''72.5''), (''0.12'', ''80'')]
   \<and> map (\<lambda>c. lookup (id' c)) CROP_TYPES = map Some CROP_TYPES"
  by (simp add: CROP_TYPES_values number_strings lookup_def)

section \<open>Rounding bounds, formatting and the scenarios\<close>

lemma quantum_pos: "0 < quantum a"
  by (simp add: quantum_def)

lemma quantum_eq:
  assumes "2 powi e \<le> a" "a < 2 powi (e + 1)"
  shows "quantum a = 2 powi (max e (- 1022) - 52)"
proof -
  have "ilog 2 a = e" using ilog_unique [of 2 e a] assms by simp
  then show ?thesis by (simp add: quantum_def)
qed

lemma round_mag_Some:
  assumes "a \<noteq> 0" "of_int (round_even (a / quantum a)) * quantum a < 2 ^ 1024"
  shows "round_mag a = Some (of_int (round_even (a / quantum a)) * quantum a)"
  using assms by (simp add: round_mag_def Let_def)

lemma round_mag_SomeD:
  assumes "round_mag a = Some m"
  shows "m = of_int (round_even (a / quantum a)) * quantum a \<and> m < 2 ^ 1024"
proof (cases "a = 0")
  case True
  then show ?thesis using assms by (auto simp: round_mag_def round_even_def)
next
  case False
  then show ?thesis using assms by (auto simp: round_mag_def Let_def split: if_splits)
qed

lemma round_mag_nonneg: "0 \<le> a \<Longrightarrow> round_mag a = Some m \<Longrightarrow> 0 \<le> m"
proof -
  assume a: "0 \<le> a" and r: "round_mag a = Some m"
  have "0 \<le> a / quantum a" using a quantum_pos [of a] by simp
  then have "0 \<le> round_even (a / quantum a)" by (rule round_even_nonneg)
  then show ?thesis using round_mag_SomeD [OF r] quantum_pos [of a] by simp
qed

lemma round_mag_ge:
  assumes "of_int n * quantum a \<le> a" "round_mag a = Some m"
  shows "of_int n * quantum a \<le> m"
proof -
  have "of_int n \<le> a / quantum a"
    using assms(1) quantum_pos [of a] by (simp add: field_simps)
  then have "n \<le> round_even (a / quantum a)" by (rule round_even_ge)
  then have "(of_int n :: rat) \<le> of_int (round_even (a / quantum a))" by simp
  then have "of_int n * quantum a \<le> of_int (round_even (a / quantum a)) * quantum a"
    using quantum_pos [of a] by (simp add: mult_le_cancel_right)
  then show ?thesis using round_mag_SomeD [OF assms(2)] by simp
qed

lemma round_mag_le:
  assumes "a \<le> of_int n * quantum a" "of_int n * quantum a < 2 ^ 1024"
  shows "\<exists>m. round_mag a = Some m \<and> m \<le> of_int n * quantum a"
proof (cases "a = 0")
  case True
  have "(0::rat) \<le> of_int n * quantum a" using assms(1) True by simp
  then show ?thesis using True by (simp add: round_mag_def)
next
  case False
  have "a / quantum a \<le> of_int n"
    using assms(1) quantum_pos [of a] by (simp add: field_simps)
  then have "round_even (a / quantum a) \<le> n" by (rule round_even_le)
  then have "(of_int (round_even (a / quantum a)) :: rat) \<le> of_int n" by simp
  then have le: "of_int (round_even (a / quantum a)) * quantum a \<le> of_int n * quantum a"
    using quantum_pos [of a] by (simp add: mult_le_cancel_right)
  then have "of_int (round_even (a / quantum a)) * quantum a < 2 ^ 1024"
    using assms(2) by linarith
  from round_mag_Some [OF False this] le show ?thesis by simp
qed

lemma round_mag_le_pow2:
  assumes "0 < a" "a \<le> 2 powi p" "- 1074 \<le> p" "p < 1024"
  shows "\<exists>m. round_mag a = Some m \<and> m \<le> 2 powi p"
proof -
  define E where "E = ilog 2 a"
  define e' where "e' = max E (- 1022) - 52"
  have B: "2 powi E \<le> a" using ilog_bounds [OF assms(1), of 2] by (simp add: E_def)
  have "(2::rat) powi E \<le> 2 powi p" using B assms(2) by linarith
  then have Ep: "E \<le> p"
    using power_int_strict_increasing [of p E "2::rat"] by (cases "E \<le> p") auto
  have e'p: "e' \<le> p" using Ep assms(3) by (simp add: e'_def)
  have q: "quantum a = 2 powi e'" by (simp add: quantum_def E_def e'_def)
  define n :: int where "n = 2 ^ nat (p - e')"
  have "(of_int n :: rat) = 2 powi (p - e')" using e'p by (simp add: n_def power_int_def)
  then have nq: "of_int n * quantum a = 2 powi p"
    unfolding q by (simp add: power_int_add [symmetric])
  have "(2::rat) powi p < 2 powi 1024"
    using assms(4) by (intro power_int_strict_increasing) auto
  then have lt: "of_int n * quantum a < 2 ^ 1024" unfolding nq by simp
  have "a \<le> of_int n * quantum a" unfolding nq by (rule assms(2))
  from round_mag_le [OF this lt] show ?thesis unfolding nq .
qed

lemma digit_char_is_digit: "n < 10 \<Longrightarrow> is_digit (''0123456789'' ! n)"
proof -
  assume "n < 10"
  then have "n \<in> {0, 1, 2, 3, 4, 5, 6, 7, 8, 9}" by auto
  then show ?thesis by (auto simp: is_digit_def)
qed

lemma dec_string_digits: "list_all is_digit (dec_string n)"
proof (induction n rule: dec_string.induct)
  case (1 n)
  show ?case
  proof (cases "n < 10")
    case True
    then show ?thesis by (subst dec_string.simps) (simp add: digit_char_is_digit)
  next
    case False
    then show ?thesis using 1
      by (subst dec_string.simps) (simp add: digit_char_is_digit)
  qed
qed

lemma dec_string_nonempty: "dec_string n \<noteq> []"
  by (subst dec_string.simps) simp

lemma not_digit_chars: "\<not> is_digit (CHR ''.'')" "\<not> is_digit (CHR ''-'')"
  by (simp_all add: is_digit_def)

lemma fixed_decimalsI:
  assumes "ip \<noteq> []" "list_all is_digit ip" "list_all is_digit fp" "length fp = f"
    and that: "sg = [] \<or> sg = ''-''"
  shows "fixed_decimals f (sg @ ip @ (if f = 0 then [] else CHR ''.'' # fp))"
proof -
  obtain c r where ip: "ip = c # r" using assms(1) by (cases ip) auto
  have cd: "is_digit c" using assms(2) ip by simp
  then have cm: "c \<noteq> CHR ''-''" using not_digit_chars by auto
  define rest where "rest = (if f = 0 then [] else CHR ''.'' # fp)"
  have u: "(case sg @ ip @ rest of [] \<Rightarrow> [] | c # r \<Rightarrow> if c = CHR ''-'' then r else sg @ ip @ rest)
            = ip @ rest"
    using that ip cm by auto
  have all: "\<And>x. x \<in> set ip \<Longrightarrow> is_digit x" using assms(2) by (simp add: list_all_iff)
  have tw: "takeWhile is_digit (ip @ rest) = ip"
    using all by (auto simp: rest_def takeWhile_append2 not_digit_chars)
  have dw: "dropWhile is_digit (ip @ rest) = rest"
    using all by (auto simp: rest_def dropWhile_append2 not_digit_chars)
  show ?thesis
    unfolding fixed_decimals_def rest_def [symmetric] u Let_def tw dw
    using assms by (auto simp: rest_def)
qed

lemma toFixed_fixed:
  assumes "a < 10 ^ 21"
  shows "fixed_decimals f (toFixed (Finite s a) f)"
proof -
  define m where "m = dec_string (nat \<lfloor>a * 10 ^ f + 1 / 2\<rfloor>)"
  define sg where "sg = (if sval s a < 0 then ''-'' else [])"
  have sg: "sg = [] \<or> sg = ''-''" by (simp add: sg_def)
  have md: "list_all is_digit m" "m \<noteq> []"
    by (simp_all add: m_def dec_string_digits dec_string_nonempty)
  show ?thesis
  proof (cases "f = 0")
    case True
    have "toFixed (Finite s a) f = sg @ m @ (if f = 0 then [] else CHR ''.'' # [])"
      using assms True by (simp add: toFixed_def m_def sg_def)
    moreover have "fixed_decimals f (sg @ m @ (if f = 0 then [] else CHR ''.'' # []))"
      using True md by (intro fixed_decimalsI [OF _ _ _ _ sg]) auto
    ultimately show ?thesis by simp
  next
    case False
    define m' where "m' = replicate (f + 1 - length m) (CHR ''0'') @ m"
    define k where "k = length m'"
    have z: "is_digit (CHR ''0'')" by (simp add: is_digit_def)
    have m'd: "list_all is_digit m'"
      using md z by (auto simp: m'_def list_all_iff)
    have kf: "f + 1 \<le> k" by (simp add: k_def m'_def)
    have eq: "toFixed (Finite s a) f
        = sg @ take (k - f) m' @ (if f = 0 then [] else CHR ''.'' # drop (k - f) m')"
      using assms False by (simp add: toFixed_def m_def sg_def Let_def m'_def k_def)
    have 1: "take (k - f) m' \<noteq> []" using kf by (auto simp: k_def)
    have 2: "list_all is_digit (take (k - f) m')"
      using m'd by (auto simp: list_all_iff dest: in_set_takeD)
    have 3: "list_all is_digit (drop (k - f) m')"
      using m'd by (auto simp: list_all_iff dest: in_set_dropD)
    have 4: "length (drop (k - f) m') = f" using kf by (simp add: k_def)
    show ?thesis unfolding eq by (rule fixed_decimalsI [OF 1 2 3 4 sg])
  qed
qed

lemmas cmp_eval = isNaN_def lesseq_num_def greater_num_def sval_def

lemma fl_cases: "(\<exists>m. fl s a = Finite s m \<and> round_mag a = Some m) \<or> (fl s a = Infinite s \<and> round_mag a = None)"
  by (cases "round_mag a") (simp_all add: fl_def)

lemma fl_small:
  assumes "0 \<le> a" "a \<le> 1024"
  shows "\<exists>m. fl s a = Finite s m \<and> m \<le> 1024"
proof (cases "a = 0")
  case True
  then show ?thesis by (simp add: fl_def round_mag_def)
next
  case False
  then have "0 < a" using assms(1) by simp
  moreover have "a \<le> 2 powi 10" using assms(2) by simp
  ultimately obtain m where "round_mag a = Some m" "m \<le> 2 powi 10"
    using round_mag_le_pow2 [of a 10] by auto
  then show ?thesis by (simp add: fl_def)
qed

lemma milli_fixed:
  assumes "0 \<le> a" "less_num (Finite False a) (lit 1)"
  shows "fixed_decimals f (toFixed (mul (Finite False a) (lit 1000)) f)"
proof -
  have "a < 1" using assms(2) by (simp add: lit_1 sval_def)
  then have "0 \<le> a * 1000" "a * 1000 \<le> 1024" using assms(1) by simp_all
  from fl_small [OF this] obtain m where m: "fl False (a * 1000) = Finite False m" "m \<le> 1024"
    by blast
  have "mul (Finite False a) (lit 1000) = Finite False m" by (simp add: lit_1000 m)
  moreover have "m < 10 ^ 21" using m(2) by simp
  ultimately show ?thesis by (simp add: toFixed_fixed)
qed

lemma format_bands_unsigned:
  assumes "0 \<le> a"
  shows
    "(less_num (Finite False a) (lit (1 / 1000)) \<longrightarrow>
        formatResult (Finite False a) = toFixed (mul (Finite False a) (lit 1000)) 2 @ '' mL''
        \<and> fixed_decimals 2 (toFixed (mul (Finite False a) (lit 1000)) 2))
   \<and> (lesseq_num (lit (1 / 1000)) (Finite False a) \<and> less_num (Finite False a) (lit 1) \<longrightarrow>
        formatResult (Finite False a) = toFixed (mul (Finite False a) (lit 1000)) 0 @ '' mL''
        \<and> fixed_decimals 0 (toFixed (mul (Finite False a) (lit 1000)) 0))
   \<and> (lesseq_num (lit 1) (Finite False a) \<and> less_num (Finite False a) (lit 1000) \<longrightarrow>
        formatResult (Finite False a) = toFixed (Finite False a) 2 @ '' L''
        \<and> fixed_decimals 2 (toFixed (Finite False a) 2))
   \<and> (lesseq_num (lit 1000) (Finite False a)
        \<and> less_num (divide_num (Finite False a) (lit 1000)) (lit (10 ^ 21)) \<longrightarrow>
        formatResult (Finite False a)
          = toFixed (divide_num (Finite False a) (lit 1000)) 2 @ '' m'' @ [CHR 0xB3]
        \<and> fixed_decimals 2 (toFixed (divide_num (Finite False a) (lit 1000)) 2))"
proof (intro conjI impI)
  assume h: "less_num (Finite False a) (lit (1 / 1000))"
  then have l1: "less_num (Finite False a) (lit 1)" by (simp add: lit_milli lit_1 sval_def)
  show "formatResult (Finite False a) = toFixed (mul (Finite False a) (lit 1000)) 2 @ '' mL''"
    using h by (simp add: formatResult_def)
  show "fixed_decimals 2 (toFixed (mul (Finite False a) (lit 1000)) 2)"
    by (rule milli_fixed [OF assms l1])
next
  assume h: "lesseq_num (lit (1 / 1000)) (Finite False a) \<and> less_num (Finite False a) (lit 1)"
  show "formatResult (Finite False a) = toFixed (mul (Finite False a) (lit 1000)) 0 @ '' mL''"
    using h by (simp add: formatResult_def lesseq_num_def)
  show "fixed_decimals 0 (toFixed (mul (Finite False a) (lit 1000)) 0)"
    using h by (intro milli_fixed [OF assms]) simp
next
  assume h: "lesseq_num (lit 1) (Finite False a) \<and> less_num (Finite False a) (lit 1000)"
  then have "\<not> less_num (Finite False a) (lit (1 / 1000))"
    by (simp add: lesseq_num_def lit_1 lit_milli sval_def)
  then show "formatResult (Finite False a) = toFixed (Finite False a) 2 @ '' L''"
    using h by (simp add: formatResult_def lesseq_num_def)
  have "a < 10 ^ 21" using h by (simp add: lit_1000 sval_def)
  then show "fixed_decimals 2 (toFixed (Finite False a) 2)" by (rule toFixed_fixed)
next
  assume h: "lesseq_num (lit 1000) (Finite False a)
    \<and> less_num (divide_num (Finite False a) (lit 1000)) (lit (10 ^ 21))"
  then have "\<not> less_num (Finite False a) (lit (1 / 1000))" "\<not> less_num (Finite False a) (lit 1)"
    by (simp_all add: lesseq_num_def lit_1 lit_1000 lit_milli sval_def)
  then show "formatResult (Finite False a)
      = toFixed (divide_num (Finite False a) (lit 1000)) 2 @ '' m'' @ [CHR 0xB3]"
    using h by (simp add: formatResult_def lesseq_num_def)
  have d: "divide_num (Finite False a) (lit 1000) = fl False (a / 1000)" by (simp add: lit_1000)
  from fl_cases [of False "a / 1000"]
  show "fixed_decimals 2 (toFixed (divide_num (Finite False a) (lit 1000)) 2)"
  proof
    assume "\<exists>m. fl False (a / 1000) = Finite False m \<and> round_mag (a / 1000) = Some m"
    then obtain m where m: "fl False (a / 1000) = Finite False m" by blast
    have "less_num (Finite False m) (lit (10 ^ 21))" using h unfolding d m by blast
    then have "m < 10 ^ 21" unfolding lit_1e21 by (simp add: sval_def)
    then show ?thesis unfolding d m by (rule toFixed_fixed)
  next
    assume "fl False (a / 1000) = Infinite False \<and> round_mag (a / 1000) = None"
    then have i: "fl False (a / 1000) = Infinite False" by blast
    have "less_num (Infinite False) (lit (10 ^ 21))" using h unfolding d i by blast
    then show ?thesis unfolding lit_1e21 by simp
  qed
qed

text \<open>
  Claim C10. Every volume from 0.9995 up to, but below, 1 litre is printed as
  \<open>1000 mL\<close>: the millilitre branch is taken, and rounding to no decimals gives 1000.
\<close>

theorem rounds_up_to_1000_mL:
  assumes "9995 / 10000 \<le> a" "a < 1"
  shows "less_num (Finite False a) (lit 1) \<and> formatResult (Finite False a) = ''1000 mL''"
proof -
  define x where "x = a * 1000"
  have xb: "1999 / 2 \<le> x" "x < 1000" using assms by (simp_all add: x_def)
  have q: "quantum x = 2 powi (- 43)"
    using quantum_eq [of 9 x] xb by simp
  have lo: "of_int (1999 * 2 ^ 42) * quantum x = 1999 / 2"
    unfolding q by (simp add: power_int_minus_divide)
  have hi: "of_int (1000 * 2 ^ 43) * quantum x = 1000"
    unfolding q by (simp add: power_int_minus_divide)
  have "x \<le> of_int (1000 * 2 ^ 43) * quantum x" unfolding hi using xb by simp
  moreover have "of_int (1000 * 2 ^ 43) * quantum x < 2 ^ 1024" unfolding hi by simp
  ultimately obtain m where m: "round_mag x = Some m" "m \<le> 1000"
    using round_mag_le [of x "1000 * 2 ^ 43"] unfolding hi by blast
  have "of_int (1999 * 2 ^ 42) * quantum x \<le> x" unfolding lo using xb by simp
  from round_mag_ge [OF this m(1)] have ml: "1999 / 2 \<le> m" unfolding lo .
  have mulv: "mul (Finite False a) (lit 1000) = Finite False m"
    using m(1) by (simp add: lit_1000 fl_def x_def)
  have "\<lfloor>m + 1 / 2\<rfloor> = 1000" using ml m(2) by (intro floor_unique) simp_all
  then have tf: "toFixed (Finite False m) 0 = ''1000''"
    using ml m(2) by (simp add: toFixed_def sval_def dec_string.simps)
  have l1: "less_num (Finite False a) (lit 1)" using assms by (simp add: lit_1 sval_def)
  have l2: "\<not> less_num (Finite False a) (lit (1 / 1000))"
    using assms by (simp add: lit_milli sval_def)
  show ?thesis using l1 l2 by (simp add: formatResult_def mulv tf)
qed

text \<open>
  The volume 0.9996 of the claim.
\<close>

theorem rounds_up_to_1000_mL_witness:
  "less_num (lit (9996 / 10000)) (lit 1) \<and> formatResult (lit (9996 / 10000)) = ''1000 mL''"
proof -
  have v: "lit (9996 / 10000) = Finite False (1125449546879887 / 1125899906842624)"
    by (simp add: num_eval)
  show ?thesis
    unfolding v using rounds_up_to_1000_mL [of "1125449546879887 / 1125899906842624"] by simp
qed

lemmas fixed_eval = toFixed_def sval_def dec_string.simps

lemma format_huge:
  assumes "0 \<le> a"
    and "lesseq_num (lit 1000) (Finite False a)
      \<and> lesseq_num (lit (10 ^ 21)) (divide_num (Finite False a) (lit 1000))"
  shows "formatResult (Finite False a)
      = toString (divide_num (Finite False a) (lit 1000)) @ '' m'' @ [CHR 0xB3]"
proof -
  have "\<not> less_num (Finite False a) (lit (1 / 1000))" "\<not> less_num (Finite False a) (lit 1)"
    "\<not> less_num (Finite False a) (lit 1000)"
    using assms(2) by (simp_all add: lesseq_num_def lit_1 lit_1000 lit_milli sval_def)
  then have f: "formatResult (Finite False a)
      = toFixed (divide_num (Finite False a) (lit 1000)) 2 @ '' m'' @ [CHR 0xB3]"
    by (simp add: formatResult_def)
  have d: "divide_num (Finite False a) (lit 1000) = fl False (a / 1000)" by (simp add: lit_1000)
  have "toFixed (fl False (a / 1000)) 2 = toString (fl False (a / 1000))"
  proof (cases "round_mag (a / 1000)")
    case None
    then show ?thesis by (simp add: fl_def toFixed_def)
  next
    case (Some m)
    then have m: "fl False (a / 1000) = Finite False m" by (simp add: fl_def)
    have "lesseq_num (lit (10 ^ 21)) (Finite False m)" using assms(2) unfolding d m by blast
    then have "10 ^ 21 \<le> m" unfolding lit_1e21 by (simp add: lesseq_num_def sval_def)
    then show ?thesis unfolding m by (simp add: toFixed_def sval_def)
  qed
  then show ?thesis unfolding f d by simp
qed

text \<open>
  Claim C3, as amended. For a finite volume that is not below zero the four bands are
  taken by the comparisons of the program, half-open as written: below 0.001 the volume
  times 1000 is printed with two decimals and \<open>mL\<close>; from 0.001 and below 1 it is
  printed with no decimals and \<open>mL\<close>; from 1 and below 1000 the volume itself with two
  decimals and \<open>L\<close>; from 1000 on the volume divided by 1000 with the cubic-metre unit.
  This last number has two decimals as long as it is below \<open>10 ^ 21\<close>; from \<open>10 ^ 21\<close> on
  \<open>toFixed\<close> hands over to \<open>toString\<close>, and the number is printed as \<open>toString\<close> prints
  it.
\<close>

theorem format_bands:
  assumes "0 \<le> a" "lesseq_num (lit 0) (Finite s a)"
  shows
    "(less_num (Finite s a) (lit (1 / 1000)) \<longrightarrow>
        formatResult (Finite s a) = toFixed (mul (Finite s a) (lit 1000)) 2 @ '' mL''
        \<and> fixed_decimals 2 (toFixed (mul (Finite s a) (lit 1000)) 2))
   \<and> (lesseq_num (lit (1 / 1000)) (Finite s a) \<and> less_num (Finite s a) (lit 1) \<longrightarrow>
        formatResult (Finite s a) = toFixed (mul (Finite s a) (lit 1000)) 0 @ '' mL''
        \<and> fixed_decimals 0 (toFixed (mul (Finite s a) (lit 1000)) 0))
   \<and> (lesseq_num (lit 1) (Finite s a) \<and> less_num (Finite s a) (lit 1000) \<longrightarrow>
        formatResult (Finite s a) = toFixed (Finite s a) 2 @ '' L''
        \<and> fixed_decimals 2 (toFixed (Finite s a) 2))
   \<and> (lesseq_num (lit 1000) (Finite s a)
        \<and> less_num (divide_num (Finite s a) (lit 1000)) (lit (10 ^ 21)) \<longrightarrow>
        formatResult (Finite s a)
          = toFixed (divide_num (Finite s a) (lit 1000)) 2 @ '' m'' @ [CHR 0xB3]
        \<and> fixed_decimals 2 (toFixed (divide_num (Finite s a) (lit 1000)) 2))
   \<and> (lesseq_num (lit 1000) (Finite s a)
        \<and> lesseq_num (lit (10 ^ 21)) (divide_num (Finite s a) (lit 1000)) \<longrightarrow>
        formatResult (Finite s a)
          = toString (divide_num (Finite s a) (lit 1000)) @ '' m'' @ [CHR 0xB3])"
proof (cases s)
  case False
  then have sf: "s = False" by simp
  show ?thesis
    unfolding sf using format_bands_unsigned [OF assms(1)] format_huge [OF assms(1)] by blast
next
  case True
  then have a0: "a = 0" using assms by (simp add: lesseq_num_def lit_0 sval_def)
  have l: "less_num (Finite True 0) (lit (1 / 1000))"
    by (simp add: lit_milli sval_def)
  have n: "\<not> lesseq_num (lit (1 / 1000)) (Finite True 0)" "\<not> lesseq_num (lit 1) (Finite True 0)"
    "\<not> lesseq_num (lit 1000) (Finite True 0)"
    by (simp_all add: lesseq_num_def lit_milli lit_1 lit_1000 sval_def)
  have f: "formatResult (Finite True 0) = toFixed (mul (Finite True 0) (lit 1000)) 2 @ '' mL''"
    using l by (simp add: formatResult_def)
  have "mul (Finite True 0) (lit 1000) = Finite True 0"
    by (simp add: lit_1000 fl_def round_mag_def)
  then have d: "fixed_decimals 2 (toFixed (mul (Finite True 0) (lit 1000)) 2)"
    by (simp add: toFixed_fixed)
  have st: "s = True" using True by simp
  show ?thesis unfolding st a0 using l n f d by blast
qed

text \<open>
  The boundary values of the specification, each through the theorem: 0.0009999 and
  0.001, 0.999 and 1, 999.999 and 1000; then a volume of \<open>1e24\<close> litres and the negative
  zero.
\<close>

theorem format_bands_witness:
  "formatResult (lit (9999 / 10000000)) = ''1.00 mL''
   \<and> formatResult (lit (1 / 1000)) = ''1 mL''
   \<and> formatResult (lit (999 / 1000)) = ''999 mL''
   \<and> formatResult (lit 1) = ''1.00 L''
   \<and> formatResult (lit (999999 / 1000)) = ''1000.00 L''
   \<and> formatResult (lit 1000) = ''1.00 m'' @ [CHR 0xB3]
   \<and> formatResult (lit (10 ^ 24)) = ''1e+21 m'' @ [CHR 0xB3]
   \<and> formatResult (Finite True 0) = ''0.00 mL''"
proof (intro conjI)
  define a :: rat where "a = 4611224849825545 / 4611686018427387904"
  have v: "lit (9999 / 10000000) = Finite False a"
    by (simp add: a_def num_eval)
  have p: "0 \<le> a" by (simp add: a_def)
  have z: "lesseq_num (lit 0) (Finite False a)" by (simp add: a_def lit_0 cmp_eval)
  have h: "less_num (Finite False a) (lit (1 / 1000))"
    by (simp add: a_def lit_milli sval_def)
  have "formatResult (Finite False a) = toFixed (mul (Finite False a) (lit 1000)) 2 @ '' mL''"
    using format_bands [OF p z] h by blast
  also have "toFixed (mul (Finite False a) (lit 1000)) 2 = ''1.00''"
    by (simp add: a_def lit_1000) (simp add: num_eval fixed_eval)
  finally show "formatResult (lit (9999 / 10000000)) = ''1.00 mL''"
    unfolding v by simp
next
  define a :: rat where "a = 1152921504606847 / 1152921504606846976"
  have v: "lit (1 / 1000) = Finite False a"
    by (simp add: a_def lit_milli)
  have p: "0 \<le> a" by (simp add: a_def)
  have z: "lesseq_num (lit 0) (Finite False a)" by (simp add: a_def lit_0 cmp_eval)
  have h: "lesseq_num (lit (1 / 1000)) (Finite False a) \<and> less_num (Finite False a) (lit 1)"
    by (simp add: a_def lit_milli lit_1 cmp_eval)
  have "formatResult (Finite False a) = toFixed (mul (Finite False a) (lit 1000)) 0 @ '' mL''"
    using format_bands [OF p z] h by blast
  also have "toFixed (mul (Finite False a) (lit 1000)) 0 = ''1''"
    by (simp add: a_def lit_1000) (simp add: num_eval fixed_eval)
  finally show "formatResult (lit (1 / 1000)) = ''1 mL''"
    unfolding v by simp
next
  define a :: rat where "a = 8998192055486251 / 9007199254740992"
  have v: "lit (999 / 1000) = Finite False a"
    by (simp add: a_def num_eval)
  have p: "0 \<le> a" by (simp add: a_def)
  have z: "lesseq_num (lit 0) (Finite False a)" by (simp add: a_def lit_0 cmp_eval)
  have h: "lesseq_num (lit (1 / 1000)) (Finite False a) \<and> less_num (Finite False a) (lit 1)"
    by (simp add: a_def lit_milli lit_1 cmp_eval)
  have "formatResult (Finite False a) = toFixed (mul (Finite False a) (lit 1000)) 0 @ '' mL''"
    using format_bands [OF p z] h by blast
  also have "toFixed (mul (Finite False a) (lit 1000)) 0 = ''999''"
    by (simp add: a_def lit_1000) (simp add: num_eval fixed_eval)
  finally show "formatResult (lit (999 / 1000)) = ''999 mL''"
    unfolding v by simp
next
  have p: "0 \<le> (1::rat)" by simp
  have z: "lesseq_num (lit 0) (Finite False 1)" by (simp add: lit_0 cmp_eval)
  have h: "lesseq_num (lit 1) (Finite False 1) \<and> less_num (Finite False 1) (lit 1000)"
    by (simp add: lit_1 lit_1000 cmp_eval)
  have "formatResult (Finite False 1) = toFixed (Finite False 1) 2 @ '' L''"
    using format_bands [OF p z] h by blast
  also have "toFixed (Finite False 1) 2 = ''1.00''"
    by (simp add: fixed_eval)
  finally show "formatResult (lit 1) = ''1.00 L''"
    unfolding lit_1 by simp
next
  define a :: rat where "a = 4398042113057489 / 4398046511104"
  have v: "lit (999999 / 1000) = Finite False a"
    by (simp add: a_def num_eval)
  have p: "0 \<le> a" by (simp add: a_def)
  have z: "lesseq_num (lit 0) (Finite False a)" by (simp add: a_def lit_0 cmp_eval)
  have h: "lesseq_num (lit 1) (Finite False a) \<and> less_num (Finite False a) (lit 1000)"
    by (simp add: a_def lit_1 lit_1000 cmp_eval)
  have "formatResult (Finite False a) = toFixed (Finite False a) 2 @ '' L''"
    using format_bands [OF p z] h by blast
  also have "toFixed (Finite False a) 2 = ''1000.00''"
    by (simp add: a_def fixed_eval)
  finally show "formatResult (lit (999999 / 1000)) = ''1000.00 L''"
    unfolding v by simp
next
  have p: "0 \<le> (1000::rat)" by simp
  have z: "lesseq_num (lit 0) (Finite False 1000)" by (simp add: lit_0 cmp_eval)
  have d: "divide_num (Finite False 1000) (lit 1000) = Finite False 1"
    by (simp add: lit_1000) (simp add: num_eval)
  have h: "lesseq_num (lit 1000) (Finite False 1000)
      \<and> less_num (divide_num (Finite False 1000) (lit 1000)) (lit (10 ^ 21))"
    unfolding d lit_1e21 by (simp add: lit_1000 cmp_eval)
  have "formatResult (Finite False 1000)
      = toFixed (divide_num (Finite False 1000) (lit 1000)) 2 @ '' m'' @ [CHR 0xB3]"
    using format_bands [OF p z] h by blast
  also have "toFixed (divide_num (Finite False 1000) (lit 1000)) 2 = ''1.00''"
    unfolding d by (simp add: fixed_eval)
  finally show "formatResult (lit 1000) = ''1.00 m'' @ [CHR 0xB3]"
    unfolding lit_1000 by simp
next
  define a :: rat where "a = 999999999999999983222784"
  have v: "lit (10 ^ 24) = Finite False a"
    by (simp add: a_def num_eval)
  have p: "0 \<le> a" by (simp add: a_def)
  have z: "lesseq_num (lit 0) (Finite False a)" by (simp add: a_def lit_0 cmp_eval)
  have d: "divide_num (Finite False a) (lit 1000) = Finite False (10 ^ 21)"
    by (simp add: a_def lit_1000) (simp add: num_eval)
  have h: "lesseq_num (lit 1000) (Finite False a)
      \<and> lesseq_num (lit (10 ^ 21)) (divide_num (Finite False a) (lit 1000))"
    unfolding d lit_1e21 by (simp add: a_def lit_1000 cmp_eval)
  have "formatResult (Finite False a)
      = toString (divide_num (Finite False a) (lit 1000)) @ '' m'' @ [CHR 0xB3]"
    using format_bands [OF p z] h by blast
  also have "toString (divide_num (Finite False a) (lit 1000)) = ''1e+21''"
    unfolding d by (simp add: str_eval num_eval)
  finally show "formatResult (lit (10 ^ 24)) = ''1e+21 m'' @ [CHR 0xB3]"
    unfolding v by simp
next
  have p: "0 \<le> (0::rat)" by simp
  have z: "lesseq_num (lit 0) (Finite True 0)" by (simp add: lit_0 cmp_eval)
  have h: "less_num (Finite True 0) (lit (1 / 1000))" by (simp add: lit_milli sval_def)
  have "formatResult (Finite True 0) = toFixed (mul (Finite True 0) (lit 1000)) 2 @ '' mL''"
    using format_bands [OF p z] h by blast
  also have "toFixed (mul (Finite True 0) (lit 1000)) 2 = ''0.00''"
    by (simp add: lit_1000) (simp add: num_eval fixed_eval)
  finally show "formatResult (Finite True 0) = ''0.00 mL''" by simp
qed

text \<open>
  The claim as stated fails for a large volume: \<open>1e24\<close> litres is at least 1000, and
  is printed as \<open>1e+21\<close> cubic metres, which is not a number with two decimals.
\<close>

theorem format_bands_counterexample:
  "lesseq_num (lit 1000) (lit (10 ^ 24))
   \<and> formatResult (lit (10 ^ 24)) = ''1e+21 m'' @ [CHR 0xB3]
   \<and> \<not> fixed_decimals 2 ''1e+21''"
proof (intro conjI)
  define a :: rat where "a = 999999999999999983222784"
  have v: "lit (10 ^ 24) = Finite False a"
    by (simp add: a_def num_eval)
  have d: "divide_num (Finite False a) (lit 1000) = Finite False (10 ^ 21)"
    by (simp add: a_def lit_1000) (simp add: num_eval)
  have t: "toFixed (Finite False (10 ^ 21)) 2 = ''1e+21''"
    by (simp add: toFixed_def sval_def) (simp add: str_eval num_eval)
  have c: "\<not> less_num (Finite False a) (lit (1 / 1000))" "\<not> less_num (Finite False a) (lit 1)"
    "\<not> less_num (Finite False a) (lit 1000)"
    by (simp_all add: a_def lit_milli lit_1 lit_1000 sval_def)
  show "lesseq_num (lit 1000) (lit (10 ^ 24))"
    unfolding v using c by (simp add: lit_1000 lesseq_num_def)
  show "formatResult (lit (10 ^ 24)) = ''1e+21 m'' @ [CHR 0xB3]"
    unfolding v formatResult_def using c by (simp only: if_False d t) simp
  show "\<not> fixed_decimals 2 ''1e+21''"
    by (simp add: fixed_decimals_def is_digit_def)
qed

lemma parse_defaults:
  "parseFloat ''20'' = Finite False 20"
  "parseFloat ''1.0'' = Finite False 1"
  "parseFloat ''72.5'' = Finite False (145 / 2)"
  "parseFloat ''50'' = Finite False 50"
  "parseFloat ''0.175'' = Finite False (3152519739159347 / 18014398509481984)"
  "parseFloat ''100'' = Finite False 100"
  "parseFloat ''10'' = Finite False 10"
  by (simp add: parse_eval, simp add: num_eval)+

lemmas valid_eval = validateInputs_def initialFormData_def parse_defaults cmp_eval
  lit_0 lit_100

lemma valid_100: "validateInputs (initialFormData\<lparr>totalMass := ''100''\<rparr>) = ([], True)"
  by (simp add: valid_eval)

lemma valid_10: "validateInputs (initialFormData\<lparr>totalMass := ''10''\<rparr>) = ([], True)"
  by (simp add: valid_eval)

lemma calc_100:
  "calculateWaterVolume (initialFormData\<lparr>totalMass := ''100''\<rparr>)
     = Some (Finite False (5713942027226317 / 1125899906842624))"
  unfolding calculateWaterVolume_def valid_100
  by (simp add: initialFormData_def parse_defaults WATER_DENSITY_def lit_1 lit_100)
     (simp add: num_eval)

lemma calc_10:
  "calculateWaterVolume (initialFormData\<lparr>totalMass := ''10''\<rparr>)
     = Some (Finite False (2285576810890527 / 4503599627370496))"
  unfolding calculateWaterVolume_def valid_10
  by (simp add: initialFormData_def parse_defaults WATER_DENSITY_def lit_1 lit_100)
     (simp add: num_eval)

lemma lit_scenarios:
  "lit (5075 / 1000) = Finite False (5713942027226317 / 1125899906842624)"
  "lit (5075000000000001 / 10 ^ 16) = Finite False (2285576810890527 / 4503599627370496)"
  "lit (5075 / 10000) = Finite False (4571153621781053 / 9007199254740992)"
  by (simp_all add: num_eval)

lemma format_scenarios:
  "formatResult (Finite False (5713942027226317 / 1125899906842624)) = ''5.08 L''"
  "formatResult (Finite False (2285576810890527 / 4503599627370496)) = ''508 mL''"
  by (simp add: formatResult_def lit_milli lit_1 lit_1000 sval_def, simp add: num_eval fixed_eval)+

text \<open>
  Claim C4, as amended. With the defaults of the form (biomass factor 0.175, moisture
  72.5, loss 20, processing 1.0, recovery 50): a mass of 100 gives exactly the number
  5.075, printed \<open>5.08 L\<close>; a mass of 10 gives the number 0.5075000000000001, which is
  one unit in the last place (\<open>2 ^ - 53\<close>) above the number 0.5075, and is printed
  \<open>508 mL\<close>.
\<close>

theorem scenario_results:
  "calculateWaterVolume (initialFormData\<lparr>totalMass := ''100''\<rparr>) = Some (lit (5075 / 1000))
   \<and> formatResult (lit (5075 / 1000)) = ''5.08 L''
   \<and> calculateWaterVolume (initialFormData\<lparr>totalMass := ''10''\<rparr>)
       = Some (lit (5075000000000001 / 10 ^ 16))
   \<and> lit (5075000000000001 / 10 ^ 16) = Finite False (2285576810890527 / 4503599627370496)
   \<and> lit (5075 / 10000) = Finite False (2285576810890527 / 4503599627370496 - 1 / 2 ^ 53)
   \<and> formatResult (lit (5075000000000001 / 10 ^ 16)) = ''508 mL''"
  unfolding lit_scenarios calc_100 calc_10 format_scenarios by simp

text \<open>
  The claim as stated fails in its third part: with a mass of 10 the result is not the
  number 0.5075.
\<close>

theorem scenario_results_counterexample:
  "calculateWaterVolume (initialFormData\<lparr>totalMass := ''10''\<rparr>) \<noteq> Some (lit (5075 / 10000))"
  unfolding lit_scenarios calc_10 by simp

section \<open>Validation\<close>

lemma positive_check:
  "(isNaN p \<or> lesseq_num p (lit 0)) = (\<not> positive_num p)"
  by (cases p) (auto simp: isNaN_def lesseq_num_def lit_0 positive_num_def sval_def)

lemma percent_check:
  "(isNaN p \<or> less_num p (lit 0) \<or> greater_num p (lit 100)) = (\<not> in_percent_range p)"
  by (cases p) (auto simp: isNaN_def greater_num_def lit_0 lit_100 in_percent_range_def sval_def)

lemma positive_not_NaN: "positive_num p \<Longrightarrow> p \<noteq> NaN"
  by (auto simp: positive_num_def)

lemma percent_not_NaN: "in_percent_range p \<Longrightarrow> p \<noteq> NaN"
  by (auto simp: in_percent_range_def)

lemma if_append: "(if c then xs @ ys else xs) = xs @ (if c then ys else [])"
  by simp

lemma validateInputs_fst:
  "fst (validateInputs f) =
     (if totalMass f = [] \<or> \<not> positive_num (parseFloat (totalMass f))
      then [(''totalMass'', ''Please enter a valid positive mass value'')] else [])
   @ (if \<not> in_percent_range (parseFloat (lossFraction f))
      then [(''lossFraction'', ''Loss fraction must be between 0 and 100%'')] else [])
   @ (if \<not> positive_num (parseFloat (processingFactor f))
      then [(''processingFactor'', ''Processing factor must be a positive number'')] else [])
   @ (if \<not> in_percent_range (parseFloat (FormData.moistureContent f))
      then [(''moistureContent'', ''Moisture content must be between 0 and 100%'')] else [])
   @ (if \<not> in_percent_range (parseFloat (recoveryEfficiency f))
      then [(''recoveryEfficiency'', ''Recovery efficiency must be between 0 and 100%'')] else [])
   @ (if \<not> positive_num (parseFloat (FormData.biomassFactor f))
      then [(''biomassFactor'', ''Biomass factor must be a positive number'')] else [])"
  unfolding validateInputs_def Let_def positive_check percent_check if_append
  by (simp only: fst_conv append_Nil append_assoc)

lemma validateInputs_snd: "snd (validateInputs f) = (fst (validateInputs f) = [])"
  by (simp add: validateInputs_def Let_def)

text \<open>C2\<close>

lemma map_of_if_single:
  "map_of ((if c then [(k, v)] else []) @ rest) k' =
     (if c \<and> k = k' then Some v else map_of rest k')"
  "map_of (if c then [(k, v)] else []) k' = (if c \<and> k = k' then Some v else None)"
  by simp_all

text \<open>
  Claim C2, as amended. A field has no error entry exactly when its text parses to a
  number in the documented range: the total mass when the text is not empty and its
  number is strictly positive; the processing factor and the biomass factor when their
  number is strictly positive; the three percentages when their number lies in
  \<open>[0, 100]\<close>. A text that is not numeric parses to \<open>NaN\<close>, which is in no range.
  Strictly positive includes \<open>+Infinity\<close>: validation has no finiteness check.
\<close>

theorem validate_ranges:
  "(map_of (fst (validateInputs f)) ''totalMass'' = None)
      = (totalMass f \<noteq> [] \<and> positive_num (parseFloat (totalMass f)))
   \<and> (map_of (fst (validateInputs f)) ''processingFactor'' = None)
      = positive_num (parseFloat (processingFactor f))
   \<and> (map_of (fst (validateInputs f)) ''biomassFactor'' = None)
      = positive_num (parseFloat (FormData.biomassFactor f))
   \<and> (map_of (fst (validateInputs f)) ''lossFraction'' = None)
      = in_percent_range (parseFloat (lossFraction f))
   \<and> (map_of (fst (validateInputs f)) ''moistureContent'' = None)
      = in_percent_range (parseFloat (FormData.moistureContent f))
   \<and> (map_of (fst (validateInputs f)) ''recoveryEfficiency'' = None)
      = in_percent_range (parseFloat (recoveryEfficiency f))
   \<and> snd (validateInputs f)
      = (totalMass f \<noteq> [] \<and> positive_num (parseFloat (totalMass f))
         \<and> positive_num (parseFloat (processingFactor f))
         \<and> positive_num (parseFloat (FormData.biomassFactor f))
         \<and> in_percent_range (parseFloat (lossFraction f))
         \<and> in_percent_range (parseFloat (FormData.moistureContent f))
         \<and> in_percent_range (parseFloat (recoveryEfficiency f)))"
proof -
  define c1 where "c1 = (totalMass f = [] \<or> \<not> positive_num (parseFloat (totalMass f)))"
  define c2 where "c2 = (\<not> in_percent_range (parseFloat (lossFraction f)))"
  define c3 where "c3 = (\<not> positive_num (parseFloat (processingFactor f)))"
  define c4 where "c4 = (\<not> in_percent_range (parseFloat (FormData.moistureContent f)))"
  define c5 where "c5 = (\<not> in_percent_range (parseFloat (recoveryEfficiency f)))"
  define c6 where "c6 = (\<not> positive_num (parseFloat (FormData.biomassFactor f)))"
  note E = validateInputs_fst [of f, folded c1_def c2_def c3_def c4_def c5_def c6_def]
  have m1: "(map_of (fst (validateInputs f)) ''totalMass'' = None) = (\<not> c1)"
    unfolding E map_of_if_single by simp
  have m2: "(map_of (fst (validateInputs f)) ''lossFraction'' = None) = (\<not> c2)"
    unfolding E map_of_if_single by simp
  have m3: "(map_of (fst (validateInputs f)) ''processingFactor'' = None) = (\<not> c3)"
    unfolding E map_of_if_single by simp
  have m4: "(map_of (fst (validateInputs f)) ''moistureContent'' = None) = (\<not> c4)"
    unfolding E map_of_if_single by simp
  have m5: "(map_of (fst (validateInputs f)) ''recoveryEfficiency'' = None) = (\<not> c5)"
    unfolding E map_of_if_single by simp
  have m6: "(map_of (fst (validateInputs f)) ''biomassFactor'' = None) = (\<not> c6)"
    unfolding E map_of_if_single by simp
  have s: "snd (validateInputs f) = (\<not> c1 \<and> \<not> c2 \<and> \<not> c3 \<and> \<not> c4 \<and> \<not> c5 \<and> \<not> c6)"
    unfolding validateInputs_snd E by simp
  show ?thesis
    unfolding m1 m2 m3 m4 m5 m6 s
    unfolding c1_def c2_def c3_def c4_def c5_def c6_def by blast
qed

lemma fails_rule_fields:
  "fails_rule ''totalMass'' (fieldValue f ''totalMass'')
     = (totalMass f = [] \<or> \<not> positive_num (parseFloat (totalMass f)))"
  "fails_rule ''lossFraction'' (fieldValue f ''lossFraction'')
     = (\<not> in_percent_range (parseFloat (lossFraction f)))"
  "fails_rule ''processingFactor'' (fieldValue f ''processingFactor'')
     = (\<not> positive_num (parseFloat (processingFactor f)))"
  "fails_rule ''moistureContent'' (fieldValue f ''moistureContent'')
     = (\<not> in_percent_range (parseFloat (FormData.moistureContent f)))"
  "fails_rule ''recoveryEfficiency'' (fieldValue f ''recoveryEfficiency'')
     = (\<not> in_percent_range (parseFloat (recoveryEfficiency f)))"
  "fails_rule ''biomassFactor'' (fieldValue f ''biomassFactor'')
     = (\<not> positive_num (parseFloat (FormData.biomassFactor f)))"
  using positive_not_NaN percent_not_NaN
  by (auto simp: fails_rule_def fieldValue_def)

lemma filter_if_Cons: "filter P (x # xs) = (if P x then [x] else []) @ filter P xs"
  by simp

lemma map_fst_if_single:
  "map fst ((if c then [(k, v)] else []) @ rest) = (if c then [k] else []) @ map fst rest"
  "map fst (if c then [(k, v)] else []) = (if c then [k] else [])"
  by simp_all

text \<open>
  Claim C8. The keys of the errors are exactly the fields that fail their own rule, each
  rule reading only that field's text, in the order of the checks and without
  repetition; validation succeeds exactly when no field fails. The errors are a value
  the function returns: it has no other outcome.
\<close>

theorem validate_independent:
  "map fst (fst (validateInputs f)) = filter (\<lambda>k. fails_rule k (fieldValue f k)) fieldNames
   \<and> snd (validateInputs f) = (filter (\<lambda>k. fails_rule k (fieldValue f k)) fieldNames = [])
   \<and> distinct (map fst (fst (validateInputs f)))"
proof -
  have k: "map fst (fst (validateInputs f)) = filter (\<lambda>k. fails_rule k (fieldValue f k)) fieldNames"
    unfolding validateInputs_fst fieldNames_def filter_if_Cons fails_rule_fields map_fst_if_single
    by (simp only: filter.simps append_Nil2)
  have d: "distinct (filter (\<lambda>k. fails_rule k (fieldValue f k)) fieldNames)"
    by (rule distinct_filter) (simp add: fieldNames_def)
  have "snd (validateInputs f) = (map fst (fst (validateInputs f)) = [])"
    unfolding validateInputs_snd by simp
  then show ?thesis using k d by simp
qed

lemma round_mag_overflow:
  assumes "2 ^ 1024 \<le> a"
  shows "round_mag a = None"
proof -
  have apos: "0 < a" using assms by (rule less_le_trans [rotated]) simp
  define E where "E = ilog 2 a"
  have B: "2 powi E \<le> a" "a < 2 powi (E + 1)"
    using ilog_bounds [OF apos, of 2] by (simp_all add: E_def)
  have "(2::rat) powi 1024 < 2 powi (E + 1)" using B(2) assms by simp
  then have E: "1024 \<le> E"
    using power_int_increasing [of "E + 1" 1024 "2::rat"] by (cases "1024 \<le> E") auto
  have q: "quantum a = 2 powi (E - 52)" using E by (simp add: quantum_def E_def)
  have "of_int (2 ^ 52) * quantum a = 2 powi E"
    unfolding q using power_int_add [of "2::rat" 52 "E - 52"] by simp
  then have "of_int (2 ^ 52) * quantum a \<le> a" using B(1) by simp
  then have "of_int (2 ^ 52) \<le> a / quantum a"
    using quantum_pos [of a] by (simp add: field_simps)
  then have "2 ^ 52 \<le> round_even (a / quantum a)" by (rule round_even_ge)
  then have "(of_int (2 ^ 52) :: rat) \<le> of_int (round_even (a / quantum a))"
    by (simp only: of_int_le_iff)
  then have "of_int (2 ^ 52) * quantum a \<le> of_int (round_even (a / quantum a)) * quantum a"
    using quantum_pos [of a] by (simp only: mult_le_cancel_right) simp
  moreover have "(2::rat) powi 1024 \<le> 2 powi E"
    using E by (intro power_int_increasing) auto
  ultimately have "2 ^ 1024 \<le> of_int (round_even (a / quantum a)) * quantum a"
    using \<open>of_int (2 ^ 52) * quantum a = 2 powi E\<close> by simp
  then show ?thesis using apos by (simp add: round_mag_def Let_def)
qed

lemma parse_samples:
  "parseFloat ''0'' = Finite False 0"
  "parseFloat ''150'' = Finite False 150"
  "parseFloat ''101'' = Finite False 101"
  "parseFloat ''-1'' = Finite True 1"
  "parseFloat ''-0.0001'' = Finite True (7378697629483821 / 73786976294838206464)"
  "parseFloat ''100.0001'' = Finite False (3518440727320409 / 35184372088832)"
  by (simp add: parse_eval, simp add: num_eval)+

lemma parse_not_numbers:
  "parseFloat [] = NaN"
  "parseFloat ''abc'' = NaN"
  "parseFloat ''Infinity'' = Infinite False"
  by (simp_all add: parse_eval)

lemma round_mag_cert:
  assumes "2 powi e \<le> a" "a < 2 powi (e + 1)" "- 1022 \<le> e"
  shows "round_mag a =
    (if (2::rat) ^ 1024 \<le> of_int (round_even (a / 2 powi (e - 52))) * 2 powi (e - 52) then None
     else Some (of_int (round_even (a / 2 powi (e - 52))) * 2 powi (e - 52)))"
proof -
  have "0 < a" by (rule less_le_trans [OF _ assms(1)]) simp
  then have "a \<noteq> 0" by simp
  moreover have "quantum a = 2 powi (e - 52)"
    using quantum_eq [OF assms(1,2)] assms(3) by simp
  ultimately show ?thesis by (simp add: round_mag_def Let_def)
qed

lemma parse_1e200:
  "parseFloat ''1e200'' = Finite False 99999999999999996973312221251036165947450327545502362648241750950346848435554075534196338404706251868027512415973882408182135734368278484639385041047239877871023591066789981811181813306167128854888448"
proof -
  have a: "(10::rat) ^ 200 = 100000000000000000000000000000000000000000000000000000000000000000000000000000000000000000000000000000000000000000000000000000000000000000000000000000000000000000000000000000000000000000000000000000000"
    by simp
  have lo: "(2::rat) powi 664 = 76545051729020975577310162521900618820659871603466655644272117978380005723696097587725184512638784526308634214455061267843403507870735540391292521535824647434568377082591826884769598224146796816367616"
    by simp
  have hi: "(2::rat) powi (664 + 1) = 153090103458041951154620325043801237641319743206933311288544235956760011447392195175450369025277569052617268428910122535686807015741471080782585043071649294869136754165183653769539196448293593632735232"
    by simp
  have q: "(2::rat) powi (664 - 52) = 16996415770136547158066822609678996074546979767265021542382212422412913915547271767653200072487337141404458543559888032491090538804886631661104639320530795262202600666732583009015300096"
    by simp
  have c1: "(2::rat) powi 664 \<le> 10 ^ 200" unfolding a lo by simp
  have c2: "(10::rat) ^ 200 < 2 powi (664 + 1)" unfolding a hi by simp
  have re: "round_even ((10::rat) ^ 200 / 2 powi (664 - 52)) = 5883593420661338"
    unfolding a q by (simp add: round_even_def)
  have m: "of_int 5883593420661338 * (2::rat) powi (664 - 52) = 99999999999999996973312221251036165947450327545502362648241750950346848435554075534196338404706251868027512415973882408182135734368278484639385041047239877871023591066789981811181813306167128854888448"
    unfolding q by simp
  have lt: "\<not> (2::rat) ^ 1024 \<le> 99999999999999996973312221251036165947450327545502362648241750950346848435554075534196338404706251868027512415973882408182135734368278484639385041047239877871023591066789981811181813306167128854888448"
    by simp
  have "round_mag (10 ^ 200) = Some 99999999999999996973312221251036165947450327545502362648241750950346848435554075534196338404706251868027512415973882408182135734368278484639385041047239877871023591066789981811181813306167128854888448"
    using round_mag_cert [OF c1 c2] lt unfolding re m by simp
  moreover have "parseFloat ''1e200'' = fl False (10 ^ 200)" by (simp add: parse_eval)
  ultimately show ?thesis by (simp add: fl_def)
qed

lemma overflow_1e400:
  "fl False 9999999999999999394662444250207242350328975537437122472339781620627054208687723630273803080019321330542305583946752893233248807023279528544321615522160248929124666144096269561533145561164738489983397621092322208138630994725213747351190385096618755256077267472586468217736468683611398422884121732612670396695303894425945224331154483477963396905445761715933439520020822843337114038314499908946523848704 = Infinite False"
proof -
  have "(2::rat) ^ 1024 \<le> 9999999999999999394662444250207242350328975537437122472339781620627054208687723630273803080019321330542305583946752893233248807023279528544321615522160248929124666144096269561533145561164738489983397621092322208138630994725213747351190385096618755256077267472586468217736468683611398422884121732612670396695303894425945224331154483477963396905445761715933439520020822843337114038314499908946523848704"
    by simp
  then show ?thesis by (simp add: fl_def round_mag_overflow)
qed

lemma parse_overflow: "parseFloat ''1e309'' = Infinite False"
proof -
  have a: "(10::rat) ^ 309 = 1000000000000000000000000000000000000000000000000000000000000000000000000000000000000000000000000000000000000000000000000000000000000000000000000000000000000000000000000000000000000000000000000000000000000000000000000000000000000000000000000000000000000000000000000000000000000000000000000000000000000000000000"
    by simp
  have b: "(2::rat) ^ 1024 = 179769313486231590772930519078902473361797697894230657273430081157732675805500963132708477322407536021120113879871393357658789768814416622492847430639474124377767893424865485276302219601246094119453082952085005768838150682342462881473913110540827237163350510684586298239947245938479716304835356329624224137216"
    by simp
  have "(2::rat) ^ 1024 \<le> 10 ^ 309" unfolding a b by simp
  then have r: "round_mag (10 ^ 309) = None" by (rule round_mag_overflow)
  have p: "parseFloat ''1e309'' = fl False (10 ^ 309)" by (simp add: parse_eval)
  show ?thesis unfolding p fl_def r by simp
qed

lemmas range_eval = positive_num_def in_percent_range_def finite_positive_def sval_def
  parse_defaults parse_samples parse_not_numbers parse_overflow

text \<open>
  The boundary values: 0 and 100 are valid percentages; -0.0001 and 100.0001 are not;
  an empty mass and the mass 0 are rejected.
\<close>

theorem validate_ranges_witness:
  "snd (validateInputs (initialFormData\<lparr>totalMass := ''100'', lossFraction := ''0'',
      moistureContent := ''100''\<rparr>))
   \<and> map_of (fst (validateInputs (initialFormData\<lparr>totalMass := ''100'',
         lossFraction := ''-0.0001'', recoveryEfficiency := ''100.0001''\<rparr>))) ''lossFraction''
       \<noteq> None
   \<and> map_of (fst (validateInputs (initialFormData\<lparr>totalMass := ''100'',
         lossFraction := ''-0.0001'', recoveryEfficiency := ''100.0001''\<rparr>))) ''recoveryEfficiency''
       \<noteq> None
   \<and> map_of (fst (validateInputs (initialFormData\<lparr>totalMass := ''100'',
         lossFraction := ''-0.0001'', recoveryEfficiency := ''100.0001''\<rparr>))) ''moistureContent''
       = None
   \<and> map_of (fst (validateInputs initialFormData)) ''totalMass'' \<noteq> None
   \<and> map_of (fst (validateInputs (initialFormData\<lparr>totalMass := ''0''\<rparr>))) ''totalMass'' \<noteq> None"
  using
    validate_ranges [of "initialFormData\<lparr>totalMass := ''100'', lossFraction := ''0'',
      moistureContent := ''100''\<rparr>"]
    validate_ranges [of "initialFormData\<lparr>totalMass := ''100'',
         lossFraction := ''-0.0001'', recoveryEfficiency := ''100.0001''\<rparr>"]
    validate_ranges [of initialFormData]
    validate_ranges [of "initialFormData\<lparr>totalMass := ''0''\<rparr>"]
  by (simp add: initialFormData_def range_eval)

text \<open>
  The claim as stated fails for the total mass: the texts \<open>1e309\<close> and \<open>Infinity\<close> parse
  to \<open>+Infinity\<close>, which is not a finite positive number, and validation accepts them.
\<close>

theorem validate_ranges_counterexample:
  "map_of (fst (validateInputs (initialFormData\<lparr>totalMass := ''1e309''\<rparr>))) ''totalMass'' = None
   \<and> snd (validateInputs (initialFormData\<lparr>totalMass := ''1e309''\<rparr>))
   \<and> \<not> finite_positive (parseFloat ''1e309'')
   \<and> map_of (fst (validateInputs (initialFormData\<lparr>totalMass := ''Infinity''\<rparr>))) ''totalMass'' = None
   \<and> \<not> finite_positive (parseFloat ''Infinity'')"
proof -
  have 1: "validateInputs (initialFormData\<lparr>totalMass := ''1e309''\<rparr>) = ([], True)"
    by (simp add: validateInputs_def initialFormData_def parse_defaults parse_overflow cmp_eval
        lit_0 lit_100)
  have 2: "validateInputs (initialFormData\<lparr>totalMass := ''Infinity''\<rparr>) = ([], True)"
    by (simp add: validateInputs_def initialFormData_def parse_defaults parse_not_numbers cmp_eval
        lit_0 lit_100)
  show ?thesis unfolding 1 2 by (simp add: range_eval)
qed

text \<open>
  A loss fraction of 150 in an otherwise valid form gives the one entry for that field;
  a form whose six fields are all invalid gives all six entries.
\<close>

theorem validate_independent_witness:
  "map fst (fst (validateInputs (initialFormData\<lparr>totalMass := ''100'', lossFraction := ''150''\<rparr>)))
     = [''lossFraction'']
   \<and> \<not> snd (validateInputs (initialFormData\<lparr>totalMass := ''100'', lossFraction := ''150''\<rparr>))
   \<and> map fst (fst (validateInputs (initialFormData\<lparr>totalMass := [], lossFraction := ''150'',
         processingFactor := ''abc'', moistureContent := ''-1'', recoveryEfficiency := ''101'',
         biomassFactor := ''0''\<rparr>)))
     = fieldNames"
proof -
  have 1: "filter (\<lambda>k. fails_rule k (fieldValue (initialFormData\<lparr>totalMass := ''100'',
      lossFraction := ''150''\<rparr>) k)) fieldNames = [''lossFraction'']"
    unfolding fieldNames_def filter_if_Cons fails_rule_fields
    by (simp add: initialFormData_def range_eval)
  have 2: "filter (\<lambda>k. fails_rule k (fieldValue (initialFormData\<lparr>totalMass := [],
      lossFraction := ''150'', processingFactor := ''abc'', moistureContent := ''-1'',
      recoveryEfficiency := ''101'', biomassFactor := ''0''\<rparr>) k)) fieldNames = fieldNames"
    unfolding fieldNames_def filter_if_Cons fails_rule_fields
    by (simp add: initialFormData_def range_eval)
  show ?thesis
    using
      validate_independent [of "initialFormData\<lparr>totalMass := ''100'', lossFraction := ''150''\<rparr>"]
      validate_independent [of "initialFormData\<lparr>totalMass := [], lossFraction := ''150'',
         processingFactor := ''abc'', moistureContent := ''-1'', recoveryEfficiency := ''101'',
         biomassFactor := ''0''\<rparr>"]
    unfolding 1 2 by simp
qed

section \<open>Crop selection\<close>

lemma lookup_None: "cid \<notin> set (map id' CROP_TYPES) \<Longrightarrow> lookup cid = None"
  by (auto simp: lookup_def find_None_iff)

lemma lookup_unknown: "lookup ''unknown'' = None"
  by (simp add: lookup_def CROP_TYPES_def)

lemma crop_fill:
  "cropTypeEffect (f\<lparr>cropType := ''tunisian-olive''\<rparr>)
     = f\<lparr>cropType := ''tunisian-olive'', biomassFactor := ''0.175'', moistureContent := ''72.5''\<rparr>"
  "cropTypeEffect (f\<lparr>cropType := ''koroneiki-olive''\<rparr>)
     = f\<lparr>cropType := ''koroneiki-olive'', biomassFactor := ''0.2'', moistureContent := ''70''\<rparr>"
  "cropTypeEffect (f\<lparr>cropType := ''apple-tree''\<rparr>)
     = f\<lparr>cropType := ''apple-tree'', biomassFactor := ''0.12'', moistureContent := ''80''\<rparr>"
  by (simp_all add: cropTypeEffect_def lookup_def CROP_TYPES_values number_strings)

text \<open>
  Claim C6, as amended. For an identifier that is not in the catalog the lookup finds
  nothing and the crop shown falls back to the first entry, \<open>tunisian-olive\<close>; the form
  itself only stores the identifier: its biomass factor and moisture content are left as
  they were (the effect is guarded by \<open>if (crop)\<close>).
\<close>

theorem unknown_crop_keeps_form:
  assumes "cid \<notin> set (map id' CROP_TYPES)"
  shows "lookup cid = None
    \<and> selectedCrop (f\<lparr>cropType := cid\<rparr>) = CROP_TYPES ! 0
    \<and> id' (CROP_TYPES ! 0) = ''tunisian-olive''
    \<and> selectCrop cid f = f\<lparr>cropType := cid\<rparr>"
proof -
  have n: "lookup cid = None" using assms by (rule lookup_None)
  have "selectedCrop (f\<lparr>cropType := cid\<rparr>) = CROP_TYPES ! 0"
    by (simp add: selectedCrop_def n)
  moreover have "id' (CROP_TYPES ! 0) = ''tunisian-olive''" by (simp add: CROP_TYPES_def)
  moreover have "selectCrop cid f = f\<lparr>cropType := cid\<rparr>"
    by (simp add: selectCrop_def handleCropTypeChange_def cropTypeEffect_def n Let_def)
  ultimately show ?thesis using n by simp
qed

text \<open>
  The identifier \<open>unknown\<close> on the initial form.
\<close>

theorem unknown_crop_keeps_form_witness:
  "lookup ''unknown'' = None
   \<and> selectedCrop (initialFormData\<lparr>cropType := ''unknown''\<rparr>) = CROP_TYPES ! 0
   \<and> selectCrop ''unknown'' initialFormData = initialFormData\<lparr>cropType := ''unknown''\<rparr>"
proof -
  have "''unknown'' \<notin> set (map id' CROP_TYPES)" by (simp add: CROP_TYPES_def)
  from unknown_crop_keeps_form [OF this, of initialFormData] show ?thesis by simp
qed

text \<open>
  The claim as stated fails in its last part: after selecting \<open>koroneiki-olive\<close> and
  then the unknown identifier, the form holds 0.2 and 70, not the first entry's 0.175
  and 72.5.
\<close>

theorem unknown_crop_counterexample:
  "lookup ''unknown'' = None
   \<and> selectCrop ''koroneiki-olive'' initialFormData
       = initialFormData\<lparr>cropType := ''koroneiki-olive'', biomassFactor := ''0.2'',
           moistureContent := ''70''\<rparr>
   \<and> FormData.biomassFactor (selectCrop ''unknown'' (selectCrop ''koroneiki-olive'' initialFormData))
       = ''0.2''
   \<and> FormData.moistureContent (selectCrop ''unknown'' (selectCrop ''koroneiki-olive'' initialFormData))
       = ''70''
   \<and> FormData.biomassFactor (cropTypeEffect (initialFormData\<lparr>cropType := ''tunisian-olive''\<rparr>))
       = ''0.175''
   \<and> FormData.moistureContent (cropTypeEffect (initialFormData\<lparr>cropType := ''tunisian-olive''\<rparr>))
       = ''72.5''"
proof -
  have 1: "selectCrop ''koroneiki-olive'' initialFormData
       = initialFormData\<lparr>cropType := ''koroneiki-olive'', biomassFactor := ''0.2'',
           moistureContent := ''70''\<rparr>"
    unfolding selectCrop_def handleCropTypeChange_def Let_def crop_fill
    by (simp add: initialFormData_def)
  have 2: "selectCrop ''unknown'' (initialFormData\<lparr>cropType := ''koroneiki-olive'',
      biomassFactor := ''0.2'', moistureContent := ''70''\<rparr>)
       = initialFormData\<lparr>cropType := ''unknown'', biomassFactor := ''0.2'',
           moistureContent := ''70''\<rparr>"
    by (simp add: selectCrop_def handleCropTypeChange_def Let_def cropTypeEffect_def
        lookup_unknown)
  show ?thesis unfolding 1 2 crop_fill using lookup_unknown by simp
qed

text \<open>
  Claim C7, as amended. For an identifier found in the catalog and different from the
  one the form holds, selecting it stores the identifier and overwrites the biomass
  factor and the moisture content with the profile's values, printed as strings; when
  it is the identifier the form already holds, the effect does not run (its dependency
  has not changed) and the form is unchanged. In both cases the total mass, the loss
  fraction, the processing factor and the recovery efficiency are untouched, the effect
  itself never changes the identifier, and repeating the selection changes nothing.
\<close>

theorem select_known_crop:
  assumes "lookup cid = Some crop"
  shows "selectCrop cid f =
      (if cid = cropType f then f
       else f\<lparr>cropType := cid,
              biomassFactor := toString (CropType.biomassFactor crop),
              moistureContent := toString (CropType.moistureContent crop)\<rparr>)
    \<and> cropType (selectCrop cid f) = cid
    \<and> totalMass (selectCrop cid f) = totalMass f
    \<and> lossFraction (selectCrop cid f) = lossFraction f
    \<and> processingFactor (selectCrop cid f) = processingFactor f
    \<and> recoveryEfficiency (selectCrop cid f) = recoveryEfficiency f
    \<and> cropType (cropTypeEffect f) = cropType f
    \<and> selectCrop cid (selectCrop cid f) = selectCrop cid f"
  using assms
  by (auto simp: selectCrop_def handleCropTypeChange_def cropTypeEffect_def Let_def
      split: option.splits)

text \<open>
  Selecting \<open>apple-tree\<close> on the initial form with a mass of 100.
\<close>

theorem select_known_crop_witness:
  "selectCrop ''apple-tree'' (initialFormData\<lparr>totalMass := ''100''\<rparr>)
     = \<lparr>cropType = ''apple-tree'', totalMass = ''100'', lossFraction = ''20'',
        processingFactor = ''1.0'', moistureContent = ''80'', recoveryEfficiency = ''50'',
        biomassFactor = ''0.12''\<rparr>
   \<and> selectCrop ''apple-tree'' (selectCrop ''apple-tree'' (initialFormData\<lparr>totalMass := ''100''\<rparr>))
     = selectCrop ''apple-tree'' (initialFormData\<lparr>totalMass := ''100''\<rparr>)"
proof -
  define f where "f = initialFormData\<lparr>totalMass := ''100''\<rparr>"
  have l: "lookup ''apple-tree'' =
      Some \<lparr>id' = ''apple-tree'', name = ''Apple Tree'', scientificName = ''Malus domestica'',
        biomassFactor = Finite False (1080863910568919 / 9007199254740992),
        moistureContent = Finite False 80\<rparr>"
    by (simp add: lookup_def CROP_TYPES_values)
  note T = select_known_crop [OF l, of f]
  have ne: "''apple-tree'' \<noteq> cropType f" by (simp add: f_def initialFormData_def)
  have 1: "selectCrop ''apple-tree'' f = f\<lparr>cropType := ''apple-tree'',
      biomassFactor := ''0.12'', moistureContent := ''80''\<rparr>"
    using T ne by (simp add: number_strings)
  have 2: "selectCrop ''apple-tree'' (selectCrop ''apple-tree'' f) = selectCrop ''apple-tree'' f"
    using T by blast
  show ?thesis
    unfolding f_def [symmetric] 2 unfolding 1 by (simp add: f_def initialFormData_def)
qed

text \<open>
  The claim as stated fails when the identifier is the one already selected: with the
  biomass factor edited to 0.3, selecting \<open>tunisian-olive\<close> again leaves 0.3 in the form,
  not the profile's 0.175.
\<close>

theorem select_known_crop_counterexample:
  "lookup ''tunisian-olive'' \<noteq> None
   \<and> FormData.biomassFactor (cropTypeEffect (initialFormData\<lparr>cropType := ''tunisian-olive''\<rparr>))
       = ''0.175''
   \<and> FormData.biomassFactor (selectCrop ''tunisian-olive'' (initialFormData\<lparr>biomassFactor := ''0.3''\<rparr>))
       = ''0.3''"
proof -
  have "lookup ''tunisian-olive'' \<noteq> None" by (simp add: lookup_def CROP_TYPES_def)
  moreover have "FormData.biomassFactor
      (selectCrop ''tunisian-olive'' (initialFormData\<lparr>biomassFactor := ''0.3''\<rparr>)) = ''0.3''"
    by (simp add: selectCrop_def handleCropTypeChange_def initialFormData_def Let_def)
  ultimately show ?thesis unfolding crop_fill by simp
qed

section \<open>The calculation\<close>

lemma pow2_split: "of_int (2 ^ n) * (2::rat) powi (E - int n) = 2 powi E"
  using power_int_add [of "2::rat" "int n" "E - int n"] by simp

lemma pow2_le_D: "(2::rat) powi x \<le> 2 powi y \<Longrightarrow> x \<le> y"
  using power_int_strict_increasing [of y x "2::rat"] by (cases "x \<le> y") auto

lemma pow2_less_D: "(2::rat) powi x < 2 powi y \<Longrightarrow> x < y"
  using power_int_increasing [of y x "2::rat"] by (cases "x < y") auto

lemma self_multiple_round:
  assumes "m \<noteq> 0" "m = of_int j * quantum m" "m < 2 ^ 1024"
  shows "round_mag m = Some m"
proof -
  have "m / quantum m = of_int j"
    using assms(2) quantum_pos [of m] by (simp add: field_simps)
  then have "of_int (round_even (m / quantum m)) * quantum m = m"
    using assms(2) by (simp add: round_even_of_int)
  then show ?thesis using assms(1,3) by (simp add: round_mag_def Let_def)
qed

lemma round_mag_idem:
  assumes "0 \<le> a" "round_mag a = Some m"
  shows "round_mag m = Some m"
proof (cases "m = 0")
  case True
  then show ?thesis by (simp add: round_mag_def)
next
  case False
  define q where "q = quantum a"
  define k where "k = round_even (a / q)"
  have D: "m = of_int k * q" "m < 2 ^ 1024"
    using round_mag_SomeD [OF assms(2)] by (simp_all add: q_def k_def)
  have qpos: "0 < q" by (simp add: q_def quantum_pos)
  have "a \<noteq> 0" using assms(2) False by (auto simp: round_mag_def)
  then have apos: "0 < a" using assms(1) by simp
  have "0 \<le> a / q" using apos qpos by simp
  then have "0 \<le> k" unfolding k_def by (rule round_even_nonneg)
  moreover have "k \<noteq> 0" using False D(1) by auto
  ultimately have k1: "1 \<le> k" by simp
  define E where "E = ilog 2 a"
  have B: "2 powi E \<le> a" "a < 2 powi (E + 1)"
    using ilog_bounds [OF apos, of 2] by (simp_all add: E_def)
  have "\<exists>j. m = of_int j * quantum m"
  proof (cases "- 1022 \<le> E")
    case True
    have q: "q = 2 powi (E - 52)" using True by (simp add: q_def quantum_def E_def)
    have lo: "of_int (2 ^ 52) * q = 2 powi E"
      unfolding q using pow2_split [of 52 E] by simp
    have hi: "of_int (2 ^ 53) * q = 2 powi (E + 1)"
      unfolding q using pow2_split [of 53 "E + 1"] by (simp add: algebra_simps)
    have "of_int (2 ^ 52) \<le> a / q" using lo B(1) qpos by (simp add: field_simps)
    then have kl: "2 ^ 52 \<le> k" unfolding k_def by (rule round_even_ge)
    have "a / q \<le> of_int (2 ^ 53)" using hi B(2) qpos by (simp add: field_simps)
    then have kh: "k \<le> 2 ^ 53" unfolding k_def by (rule round_even_le)
    have ml: "2 powi E \<le> m"
    proof -
      have "(of_int (2 ^ 52) :: rat) \<le> of_int k" using kl by (simp only: of_int_le_iff)
      then have "of_int (2 ^ 52) * q \<le> of_int k * q"
        using qpos by (simp only: mult_le_cancel_right) simp
      then show ?thesis unfolding lo D(1) .
    qed
    show ?thesis
    proof (cases "k = 2 ^ 53")
      case True
      then have m: "m = 2 powi (E + 1)" using D(1) hi by simp
      have "(2::rat) powi (E + 1) < 2 powi (E + 1 + 1)"
        by (intro power_int_strict_increasing) auto
      then have "quantum m = 2 powi (max (E + 1) (- 1022) - 52)"
        using quantum_eq [of "E + 1" m] m by simp
      then have qm: "quantum m = 2 powi (E + 1 - 52)" using \<open>- 1022 \<le> E\<close> by simp
      have "of_int (2 ^ 52) * quantum m = 2 powi (E + 1)"
        unfolding qm using pow2_split [of 52 "E + 1"] by simp
      then have "m = of_int (2 ^ 52) * quantum m" using m by simp
      then show ?thesis by (rule exI)
    next
      case False
      then have "k < 2 ^ 53" using kh by simp
      then have "(of_int k :: rat) < of_int (2 ^ 53)" by (simp only: of_int_less_iff)
      then have "of_int k * q < of_int (2 ^ 53) * q"
        using qpos by (simp only: mult_less_cancel_right) simp
      then have mh: "m < 2 powi (E + 1)" unfolding hi D(1) .
      have "quantum m = 2 powi (max E (- 1022) - 52)"
        using quantum_eq [OF ml mh] .
      then have "quantum m = q" using True by (simp add: q)
      then have "m = of_int k * quantum m" using D(1) by simp
      then show ?thesis by (rule exI)
    qed
  next
    case False
    then have El: "E + 1 \<le> - 1022" by simp
    have q: "q = 2 powi (- 1074)" using False by (simp add: q_def quantum_def E_def)
    have hi: "of_int (2 ^ 52) * q = 2 powi (- 1022)"
      unfolding q using pow2_split [of 52 "- 1022"] by simp
    have "(2::rat) powi (E + 1) \<le> 2 powi (- 1022)"
      using El by (intro power_int_increasing) auto
    then have "a \<le> of_int (2 ^ 52) * q" unfolding hi using B(2) by simp
    then have "a / q \<le> of_int (2 ^ 52)" using qpos by (simp add: field_simps)
    then have kh: "k \<le> 2 ^ 52" unfolding k_def by (rule round_even_le)
    then have "(of_int k :: rat) \<le> of_int (2 ^ 52)" by (simp only: of_int_le_iff)
    then have "of_int k * q \<le> of_int (2 ^ 52) * q"
      using qpos by (simp only: mult_le_cancel_right) simp
    then have mh: "m \<le> 2 powi (- 1022)" unfolding hi D(1) .
    have mpos: "0 < m" using D(1) k1 qpos by simp
    have "2 powi (ilog 2 m) \<le> m" using ilog_bounds [OF mpos, of 2] by simp
    then have "(2::rat) powi (ilog 2 m) \<le> 2 powi (- 1022)" using mh by simp
    then have "ilog 2 m \<le> - 1022" by (rule pow2_le_D)
    then have "quantum m = q" by (simp add: quantum_def q)
    then have "m = of_int k * quantum m" using D(1) by simp
    then show ?thesis by (rule exI)
  qed
  then obtain j where "m = of_int j * quantum m" ..
  from self_multiple_round [OF False this D(2)] show ?thesis .
qed

lemma is_double_simps [simp]:
  "is_double NaN" "is_double (Infinite s)"
  "is_double (Finite s a) = (0 \<le> a \<and> round_mag a = Some a)"
  by (simp_all add: is_double_def)

lemma round_mag_0 [simp]: "round_mag 0 = Some 0"
  by (simp add: round_mag_def)

lemma is_double_fl: "0 \<le> a \<Longrightarrow> is_double (fl s a)"
proof (cases "round_mag a")
  case None
  then show ?thesis by (simp add: fl_def)
next
  case (Some m)
  assume "0 \<le> a"
  from round_mag_nonneg [OF this Some] round_mag_idem [OF this Some] Some
  show ?thesis by (simp add: fl_def)
qed

lemma is_double_lit: "0 \<le> q \<Longrightarrow> is_double (lit q)"
  by (simp add: lit_def is_double_fl)

lemma is_double_ifI:
  "(c \<Longrightarrow> is_double x) \<Longrightarrow> (\<not> c \<Longrightarrow> is_double y) \<Longrightarrow> is_double (if c then x else y)"
  by simp

lemma parsed_value_nonneg: "0 \<le> (of_nat n :: rat) * 10 powi e"
  by (intro mult_nonneg_nonneg) simp_all

lemma is_double_parseFloat: "is_double (parseFloat str)"
  unfolding parseFloat_def Let_def
  by (intro is_double_ifI is_double_fl parsed_value_nonneg is_double_simps(1,2))

lemma is_double_mul: "is_double x \<Longrightarrow> is_double y \<Longrightarrow> is_double (mul x y)"
  by (cases x; cases y) (simp_all add: is_double_fl)

lemma is_double_divide: "is_double x \<Longrightarrow> is_double y \<Longrightarrow> is_double (divide_num x y)"
  by (cases x; cases y) (simp_all add: is_double_fl)

lemma is_double_sub: "is_double x \<Longrightarrow> is_double y \<Longrightarrow> is_double (sub x y)"
  by (cases x; cases y) (simp_all add: is_double_fl Let_def)

lemma divide_one: "is_double x \<Longrightarrow> divide_num x (lit 1) = x"
  by (cases x) (simp_all add: lit_1 fl_def)


lemma ge0_Finite: "lesseq_num (lit 0) (Finite s a) = (\<not> sval s a < 0)"
  by (simp add: lesseq_num_def lit_0 sval_def)

lemma ge0_Infinite: "lesseq_num (lit 0) (Infinite s) = (\<not> s)"
  by (simp add: lesseq_num_def lit_0)

lemma ge0_NaN: "\<not> lesseq_num (lit 0) NaN"
  by (simp add: lesseq_num_def)

lemma ge0_fl:
  assumes "0 \<le> a" "s \<longrightarrow> a = 0"
  shows "lesseq_num (lit 0) (fl s a)"
proof (cases "a = 0")
  case True
  then show ?thesis by (simp add: fl_def ge0_Finite sval_def)
next
  case False
  then have s: "\<not> s" using assms(2) by simp
  from fl_cases [of s a] show ?thesis
  proof
    assume "\<exists>m. fl s a = Finite s m \<and> round_mag a = Some m"
    then obtain m where m: "fl s a = Finite s m" "round_mag a = Some m" by blast
    have "0 \<le> m" using round_mag_nonneg [OF assms(1) m(2)] .
    then show ?thesis unfolding m(1) using s by (simp add: ge0_Finite sval_def)
  next
    assume "fl s a = Infinite s \<and> round_mag a = None"
    then show ?thesis using s by (simp add: ge0_Infinite)
  qed
qed

lemma ge0_mul:
  assumes "is_double x" "is_double y" "lesseq_num (lit 0) x" "lesseq_num (lit 0) y"
  shows "mul x y = NaN \<or> lesseq_num (lit 0) (mul x y)"
proof (cases x)
  case NaN
  then show ?thesis by simp
next
  case (Infinite s)
  then have s: "\<not> s" using assms(3) by (simp add: ge0_Infinite)
  show ?thesis
  proof (cases y)
    case NaN
    then show ?thesis using Infinite by simp
  next
    case (Infinite t)
    then show ?thesis using \<open>x = Infinite s\<close> s assms(4) by (simp add: ge0_Infinite)
  next
    case (Finite t b)
    then have "b \<noteq> 0 \<longrightarrow> \<not> t" using assms(2,4) by (auto simp: ge0_Finite sval_def)
    then show ?thesis using \<open>x = Infinite s\<close> s Finite by (simp add: ge0_Infinite)
  qed
next
  case (Finite s a)
  then have a: "0 \<le> a" "s \<longrightarrow> a = 0" using assms(1,3) by (auto simp: ge0_Finite sval_def)
  show ?thesis
  proof (cases y)
    case NaN
    then show ?thesis using Finite by simp
  next
    case (Infinite t)
    then have "\<not> t" using assms(4) by (simp add: ge0_Infinite)
    then show ?thesis using \<open>x = Finite s a\<close> Infinite a by (auto simp: ge0_Infinite)
  next
    case (Finite t b)
    then have b: "0 \<le> b" "t \<longrightarrow> b = 0" using assms(2,4) by (auto simp: ge0_Finite sval_def)
    have "lesseq_num (lit 0) (fl (s \<noteq> t) (a * b))"
      using a b by (intro ge0_fl) auto
    then show ?thesis using \<open>x = Finite s a\<close> Finite by simp
  qed
qed

lemma ge0_div100:
  assumes "is_double x" "lesseq_num (lit 0) x"
  shows "lesseq_num (lit 0) (divide_num x (lit 100))"
proof (cases x)
  case NaN
  then show ?thesis using assms(2) by (simp add: ge0_NaN)
next
  case (Infinite s)
  then show ?thesis using assms(2) by (simp add: lit_100 ge0_Infinite)
next
  case (Finite s a)
  then have a: "0 \<le> a" "s \<longrightarrow> a = 0" using assms by (auto simp: ge0_Finite sval_def)
  have "lesseq_num (lit 0) (fl s (a / 100))" using a by (intro ge0_fl) auto
  then show ?thesis using Finite by (simp add: lit_100)
qed

lemma percent_ge0: "is_double x \<Longrightarrow> in_percent_range x \<Longrightarrow> lesseq_num (lit 0) x"
  by (cases x) (auto simp: in_percent_range_def ge0_Finite)

lemma positive_ge0: "positive_num x \<Longrightarrow> lesseq_num (lit 0) x"
  by (cases x) (auto simp: positive_num_def ge0_Finite ge0_Infinite)

lemma ge0_one_minus:
  assumes "is_double x" "in_percent_range x"
  shows "lesseq_num (lit 0) (sub (lit 1) (divide_num x (lit 100)))"
proof -
  obtain s a where x: "x = Finite s a" using assms(2) by (cases x) (auto simp: in_percent_range_def)
  have a: "0 \<le> a" "sval s a \<le> 100" "0 \<le> sval s a"
    using assms x by (auto simp: in_percent_range_def)
  have d: "divide_num x (lit 100) = fl s (a / 100)" by (simp add: x lit_100)
  have "\<exists>m. fl s (a / 100) = Finite s m \<and> 0 \<le> m \<and> sval s m \<le> 1"
  proof (cases "a = 0")
    case True
    then show ?thesis by (simp add: fl_def sval_def)
  next
    case False
    have notneg: "\<not> s" using a False by (auto simp: sval_def)
    have "0 < a / 100" "a / 100 \<le> 2 powi 0" using a False notneg by (simp_all add: sval_def)
    from round_mag_le_pow2 [OF this] obtain m where
      m: "round_mag (a / 100) = Some m" "m \<le> 1" by auto
    have "0 \<le> m" using round_mag_nonneg [OF _ m(1)] a(1) by simp
    then show ?thesis using m notneg by (simp add: fl_def sval_def)
  qed
  then obtain m where m: "fl s (a / 100) = Finite s m" "0 \<le> m" "sval s m \<le> 1" by blast
  have "lesseq_num (lit 0) (sub (Finite False 1) (Finite s m))"
  proof (cases "sval False 1 - sval s m = 0")
    case True
    then show ?thesis by (simp add: ge0_Finite sval_def)
  next
    case False
    have "0 \<le> sval False 1 - sval s m" using m(3) by (simp add: sval_def)
    then have "lesseq_num (lit 0) (fl (sval False 1 - sval s m < 0) \<bar>sval False 1 - sval s m\<bar>)"
      by (intro ge0_fl) auto
    then show ?thesis using False by (simp add: Let_def)
  qed
  then show ?thesis by (simp add: d m(1) lit_1)
qed

lemma mul_NaN_right [simp]: "mul x NaN = NaN"
  by (cases x) simp_all

lemma ge0_or_NaN_mul:
  assumes "x = NaN \<or> (is_double x \<and> lesseq_num (lit 0) x)"
    and "y = NaN \<or> (is_double y \<and> lesseq_num (lit 0) y)"
  shows "mul x y = NaN \<or> (is_double (mul x y) \<and> lesseq_num (lit 0) (mul x y))"
proof (cases "x = NaN \<or> y = NaN")
  case True
  then show ?thesis by auto
next
  case False
  then have h: "is_double x" "lesseq_num (lit 0) x" "is_double y" "lesseq_num (lit 0) y"
    using assms by auto
  from ge0_mul [OF h(1) h(3) h(2) h(4)] is_double_mul [OF h(1) h(3)] show ?thesis by auto
qed

text \<open>
  Claim C9, as amended. For a form that passes validation the result is never below
  zero: it is \<open>NaN\<close> or a number that is at least 0 (\<open>+Infinity\<close> included).
\<close>

theorem result_never_negative:
  assumes "snd (validateInputs f)"
  shows "\<exists>v. calculateWaterVolume f = Some v \<and> (v = NaN \<or> lesseq_num (lit 0) v)
           \<and> \<not> less_num v (lit 0)"
proof -
  define M where "M = parseFloat (totalMass f)"
  define Fb where "Fb = parseFloat (FormData.biomassFactor f)"
  define L where "L = parseFloat (lossFraction f)"
  define Ep where "Ep = parseFloat (processingFactor f)"
  define MC where "MC = parseFloat (FormData.moistureContent f)"
  define eta where "eta = parseFloat (recoveryEfficiency f)"
  define P where "P = mul (mul (mul (mul (mul M Fb) (sub (lit 1) (divide_num L (lit 100)))) Ep)
      (divide_num MC (lit 100))) (divide_num eta (lit 100))"
  have d: "is_double M" "is_double Fb" "is_double L" "is_double Ep" "is_double MC" "is_double eta"
    by (simp_all add: M_def Fb_def L_def Ep_def MC_def eta_def is_double_parseFloat)
  have V: "fst (validateInputs f) = []" using assms by (simp add: validateInputs_snd)
  have v: "positive_num M" "positive_num Fb" "positive_num Ep"
    "in_percent_range L" "in_percent_range MC" "in_percent_range eta"
    using V unfolding validateInputs_fst M_def Fb_def L_def Ep_def MC_def eta_def
    by (auto split: if_splits)
  have l100: "is_double (lit 100)" "is_double (lit 1)" by (simp_all add: is_double_lit)
  have g: "is_double M \<and> lesseq_num (lit 0) M" "is_double Fb \<and> lesseq_num (lit 0) Fb"
    "is_double Ep \<and> lesseq_num (lit 0) Ep"
    using d v by (simp_all add: positive_ge0)
  have gl: "is_double (sub (lit 1) (divide_num L (lit 100)))
      \<and> lesseq_num (lit 0) (sub (lit 1) (divide_num L (lit 100)))"
    using d v l100 by (simp add: ge0_one_minus is_double_sub is_double_divide)
  have gm: "is_double (divide_num MC (lit 100)) \<and> lesseq_num (lit 0) (divide_num MC (lit 100))"
    using d v l100 by (simp add: ge0_div100 percent_ge0 is_double_divide)
  have ge: "is_double (divide_num eta (lit 100)) \<and> lesseq_num (lit 0) (divide_num eta (lit 100))"
    using d v l100 by (simp add: ge0_div100 percent_ge0 is_double_divide)
  have P: "P = NaN \<or> (is_double P \<and> lesseq_num (lit 0) P)"
    unfolding P_def
    by (intro ge0_or_NaN_mul disjI2 g gl gm ge)
  have dP: "is_double P" using P by auto
  have c: "calculateWaterVolume f = Some P"
    using assms divide_one [OF dP]
    by (simp add: calculateWaterVolume_def WATER_DENSITY_def Let_def P_def
        M_def Fb_def L_def Ep_def MC_def eta_def)
  have "\<not> less_num P (lit 0)" using P by (auto simp: lesseq_num_def)
  then show ?thesis using c P by blast
qed

text \<open>
  The form of the first scenario.
\<close>

theorem result_never_negative_witness:
  "snd (validateInputs (initialFormData\<lparr>totalMass := ''100''\<rparr>))
   \<and> calculateWaterVolume (initialFormData\<lparr>totalMass := ''100''\<rparr>)
       = Some (Finite False (5713942027226317 / 1125899906842624))
   \<and> lesseq_num (lit 0) (Finite False (5713942027226317 / 1125899906842624))"
proof -
  have h: "snd (validateInputs (initialFormData\<lparr>totalMass := ''100''\<rparr>))"
    by (simp add: valid_100)
  from result_never_negative [OF h] show ?thesis
    using h by (simp add: calc_100)
qed

text \<open>
  The claim as stated fails: a mass of \<open>1e200\<close>, a biomass factor of \<open>1e200\<close> and a
  moisture content of 0 pass validation; the product of the first two overflows to
  \<open>+Infinity\<close>, which times zero is \<open>NaN\<close>, and \<open>NaN\<close> is not at least 0.
\<close>

theorem result_never_negative_counterexample:
  "snd (validateInputs (initialFormData\<lparr>totalMass := ''1e200'', moistureContent := ''0'',
      biomassFactor := ''1e200''\<rparr>))
   \<and> calculateWaterVolume (initialFormData\<lparr>totalMass := ''1e200'', moistureContent := ''0'',
      biomassFactor := ''1e200''\<rparr>) = Some NaN
   \<and> \<not> lesseq_num (lit 0) NaN"
proof -
  have 1: "validateInputs (initialFormData\<lparr>totalMass := ''1e200'', moistureContent := ''0'',
      biomassFactor := ''1e200''\<rparr>) = ([], True)"
    by (simp add: validateInputs_def initialFormData_def parse_defaults parse_1e200
        parse_samples cmp_eval lit_0 lit_100)
  have 2: "calculateWaterVolume (initialFormData\<lparr>totalMass := ''1e200'', moistureContent := ''0'',
      biomassFactor := ''1e200''\<rparr>) = Some NaN"
    unfolding calculateWaterVolume_def 1
    by (simp add: initialFormData_def parse_defaults parse_1e200 parse_samples
        WATER_DENSITY_def lit_1 lit_100 overflow_1e400)
       (simp add: num_eval)
  show ?thesis unfolding 1 2 by (simp add: ge0_NaN)
qed


end
